theory Spec2Isabelle
  imports Main
begin

section \<open>The object store of the caller and of the loader\<close>

text \<open>
  The constructor of \<^verbatim>\<open>PluginLoader\<close> receives a reference to the caller's
  configuration object and keeps \<^verbatim>\<open>_.cloneDeep(config)\<close>. Whether later writes
  of the caller reach the loader depends on aliasing, so objects live in a store: an
  object is a list of properties, a property value is a primitive or a reference, and
  the store is the list of all objects (an address is an index, allocation appends).
\<close>

type_synonym addr = nat

datatype jsval = VUndefined | VNull | VBool bool | VNum int | VStr string | VRef addr

type_synonym jsobj = "(string \<times> jsval) list"

type_synonym jsheap = "jsobj list"

text \<open>Every reference stored in an object of the store points into the store.\<close>

definition valid_val :: "nat \<Rightarrow> jsval \<Rightarrow> bool" where
  "valid_val n v = (case v of VRef a \<Rightarrow> a < n | _ \<Rightarrow> True)"

definition wf_heap :: "jsheap \<Rightarrow> bool" where
  "wf_heap h = list_all (\<lambda>obj. list_all (\<lambda>fv. valid_val (length h) (snd fv)) obj) h"

text \<open>
  What can be observed through a value: the tree of properties reachable from it, cut
  at depth \<open>n\<close> (a cyclic object graph has no finite unfolding, so the observation is
  the family of all its finite cuts).
\<close>

datatype jstree = TLeaf jsval | TObj "(string \<times> jstree) list" | TCut

primrec unfold :: "nat \<Rightarrow> jsheap \<Rightarrow> jsval \<Rightarrow> jstree" where
  "unfold 0 h v = (case v of VRef a \<Rightarrow> TCut | _ \<Rightarrow> TLeaf v)"
| "unfold (Suc k) h v =
     (case v of
        VRef a \<Rightarrow>
          (if a < length h then TObj (map (\<lambda>fv. (fst fv, unfold k h (snd fv))) (h ! a))
           else TCut)
      | _ \<Rightarrow> TLeaf v)"

definition shift :: "nat \<Rightarrow> jsval \<Rightarrow> jsval" where
  "shift n v = (case v of VRef a \<Rightarrow> VRef (a + n) | _ \<Rightarrow> v)"

text \<open>
  Modelled from the spec: lodash's \<^verbatim>\<open>cloneDeep\<close> is a library function that is not
  under src/. The spec says the configuration is "captured by value (deep-copied)": the
  clone is a new object graph with the same shape (shared and cyclic substructure is
  kept) and with no object in common with the original. The model copies every object
  of the store to a fresh address and redirects the references of the copies to the
  copies; the clone of a value is the value redirected. Copies of objects that the
  value does not reach are not reachable from the clone either.
\<close>

definition cloneDeep :: "jsheap \<Rightarrow> jsval \<Rightarrow> jsheap \<times> jsval" where
  "cloneDeep h v =
     (h @ map (\<lambda>obj. map (\<lambda>fv. (fst fv, shift (length h) (snd fv))) obj) h,
      shift (length h) v)"

text \<open>What the caller can do to the store afterwards: write or delete a property of
  an object, or allocate a new object.\<close>

datatype mutation = SetProp addr string jsval | DeleteProp addr string | NewObject jsobj

fun set_prop :: "string \<Rightarrow> jsval \<Rightarrow> jsobj \<Rightarrow> jsobj" where
  "set_prop f v [] = [(f, v)]"
| "set_prop f v ((g, w) # ps) = (if f = g then (g, v) # ps else (g, w) # set_prop f v ps)"

definition delete_prop :: "string \<Rightarrow> jsobj \<Rightarrow> jsobj" where
  "delete_prop f ps = filter (\<lambda>fv. fst fv \<noteq> f) ps"

fun mutate :: "mutation \<Rightarrow> jsheap \<Rightarrow> jsheap" where
  "mutate (SetProp a f v) h = (if a < length h then h[a := set_prop f v (h ! a)] else h)"
| "mutate (DeleteProp a f) h = (if a < length h then h[a := delete_prop f (h ! a)] else h)"
| "mutate (NewObject obj) h = h @ [obj]"

definition mutate_all :: "mutation list \<Rightarrow> jsheap \<Rightarrow> jsheap" where
  "mutate_all ms h = foldl (\<lambda>h m. mutate m h) h ms"

text \<open>A mutation writes into the address range \<open>[lo, hi)\<close>.\<close>

fun writes_into :: "nat \<Rightarrow> nat \<Rightarrow> mutation \<Rightarrow> bool" where
  "writes_into lo hi (SetProp a f v) = (lo \<le> a \<and> a < hi)"
| "writes_into lo hi (DeleteProp a f) = (lo \<le> a \<and> a < hi)"
| "writes_into lo hi (NewObject obj) = False"

section \<open>Data of the loader\<close>

text \<open>\<^verbatim>\<open>IPlugin\<close>: the loader reads only \<^verbatim>\<open>plugin.id\<close>.\<close>

record IPlugin =
  plugin_id :: string

text \<open>\<^verbatim>\<open>Manifest\<close>: the loader reads \<^verbatim>\<open>manifest.id\<close> and
  \<^verbatim>\<open>manifest.server.dependencies\<close>, which may be \<^verbatim>\<open>undefined\<close> (\<open>None\<close>).\<close>

record ManifestServer =
  dependencies :: "IPlugin list option"

record Manifest =
  manifest_id :: string
  server :: ManifestServer

text \<open>
  \<^verbatim>\<open>FrameworkConfig\<close> as the loader sees it through \<^verbatim>\<open>this.config\<close>: the string
  \<^verbatim>\<open>pluginBasePath\<close> and, for the plugin constructors that receive the whole object,
  everything observable through the reference.
\<close>

record FrameworkConfig =
  pluginBasePath :: string
  content :: "nat \<Rightarrow> jstree"

datatype FrameworkErrors =
  MANIFEST_NOT_FOUND | PLUGIN_LOAD_FAILED | ROUTE_REGISTRY_FAILED | SCHEMA_LOADER_FAILED

type_synonym root_error = string

text \<open>What a promise of the loader rejects with: a \<^verbatim>\<open>FrameworkError\<close> with its
  \<^verbatim>\<open>code\<close> and \<^verbatim>\<open>rootError\<close>, or a \<^verbatim>\<open>TypeError\<close> of the runtime.\<close>

datatype error = FrameworkError FrameworkErrors root_error | TypeError

datatype plugin_instance = PluginInstance string

text \<open>
  The collaborators, one per \<^verbatim>\<open>try\<close> block of the source. Each is a function of
  what the block passes to it and returns what the block got or the error it caught:
  \<^item> \<open>import_manifest path\<close>: \<^verbatim>\<open>import(path)\<close> followed by \<^verbatim>\<open>Manifest.fromJSON\<close>;
  \<^item> \<open>new_server path config manifest\<close>: \<^verbatim>\<open>import(path)\<close> and
    \<^verbatim>\<open>new pluginFile.Server(config, manifest)\<close>;
  \<^item> \<open>init_router path manifest\<close>: \<^verbatim>\<open>RouterRegistry.getRouter\<close>, \<^verbatim>\<open>import(path)\<close>,
    \<^verbatim>\<open>new Router()\<close> and \<^verbatim>\<open>init(router, manifest)\<close>;
  \<^item> \<open>glob pattern\<close>: the \<^verbatim>\<open>(err, files)\<close> that \<^verbatim>\<open>glob\<close> hands to its callback;
  \<^item> \<open>create_schema path manifest\<close>: \<^verbatim>\<open>import(path)\<close>, \<^verbatim>\<open>SchemaLoader.getLoader\<close>
    and \<^verbatim>\<open>schemaLoader.create(manifest, schema)\<close>; \<open>Some e\<close> is the error thrown.
\<close>

record env =
  import_manifest :: "string \<Rightarrow> root_error + Manifest"
  new_server :: "string \<Rightarrow> FrameworkConfig \<Rightarrow> Manifest \<Rightarrow> root_error + plugin_instance"
  init_router :: "string \<Rightarrow> Manifest \<Rightarrow> root_error option"
  glob :: "string \<Rightarrow> root_error + string list"
  create_schema :: "string \<Rightarrow> Manifest \<Rightarrow> root_error option"

text \<open>The trace of what the loader did, in order; it is appended to and never read.\<close>

datatype event =
    Claimed string
  | ManifestResolved string
  | ManifestFailed string
  | SchemaGlobStarted string
  | Instantiated string
  | InstantiateFailed string
  | RoutesRegistered string
  | RoutesFailed string
  | SchemaCreated string string
  | SchemaFailed string string

text \<open>
  The mutable state: \<^verbatim>\<open>_config\<close> and \<^verbatim>\<open>_pluginsLoaded\<close> of the loader,
  \<^verbatim>\<open>PluginManager.instances\<close>, the \<^verbatim>\<open>glob\<close> callbacks that were registered and have
  not run yet, the errors thrown where nothing catches them (rejections of promises that
  nobody holds, exceptions of a callback), and the trace.
\<close>

record state =
  config_ref :: jsval
  pluginsLoaded :: "string list"
  instances :: "string \<rightharpoonup> plugin_instance"
  pending :: "Manifest list"
  unhandled :: "error list"
  events :: "event list"

type_synonym outcome = "(error + unit) \<times> state"

section \<open>The loader\<close>

text \<open>\<^verbatim>\<open>constructor(config)\<close>: \<^verbatim>\<open>this._config = _.cloneDeep(config)\<close> and
  \<^verbatim>\<open>_pluginsLoaded = []\<close>, at the start of a process run.\<close>

definition PluginLoader_new :: "jsheap \<Rightarrow> jsval \<Rightarrow> jsheap \<times> state" where
  "PluginLoader_new h config =
     (let (h', c) = cloneDeep h config
      in (h', \<lparr>config_ref = c, pluginsLoaded = [], instances = Map.empty,
               pending = [], unhandled = [], events = []\<rparr>))"

text \<open>Reading a property through a reference.\<close>

definition get_prop :: "jsheap \<Rightarrow> jsval \<Rightarrow> string \<Rightarrow> jsval" where
  "get_prop h r f =
     (case r of
        VRef a \<Rightarrow> (if a < length h then (case map_of (h ! a) f of Some v \<Rightarrow> v | None \<Rightarrow> VUndefined)
                  else VUndefined)
      | _ \<Rightarrow> VUndefined)"

text \<open>\<^verbatim>\<open>get config()\<close> returns \<^verbatim>\<open>this._config\<close>; the loader reads it as a
  \<^verbatim>\<open>FrameworkConfig\<close>, whose \<^verbatim>\<open>pluginBasePath\<close> is declared a string (\<open>None\<close>: the
  object is not of that type).\<close>

definition config :: "jsheap \<Rightarrow> state \<Rightarrow> FrameworkConfig option" where
  "config h s =
     (case get_prop h (config_ref s) ''pluginBasePath'' of
        VStr b \<Rightarrow> Some \<lparr>pluginBasePath = b, content = (\<lambda>n. unfold n h (config_ref s))\<rparr>
      | _ \<Rightarrow> None)"

definition log :: "event \<Rightarrow> state \<Rightarrow> state" where
  "log e s = s\<lparr>events := events s @ [e]\<rparr>"

text \<open>\<^verbatim>\<open>getManifest\<close>: any error of the import or of \<^verbatim>\<open>fromJSON\<close> is wrapped.\<close>

definition getManifest :: "env \<Rightarrow> FrameworkConfig \<Rightarrow> IPlugin \<Rightarrow> state \<Rightarrow> (error + Manifest) \<times> state" where
  "getManifest E cfg plugin s =
     (let pluginId = plugin_id plugin in
      case import_manifest E (pluginBasePath cfg @ pluginId @ ''/manifest'') of
        Inr m \<Rightarrow> (Inr m, log (ManifestResolved pluginId) s)
      | Inl err \<Rightarrow> (Inl (FrameworkError MANIFEST_NOT_FOUND err), log (ManifestFailed pluginId) s))"

text \<open>
  \<^verbatim>\<open>loadDBSchema\<close> calls \<^verbatim>\<open>glob\<close> with a callback and returns: its promise is
  fulfilled at once, whatever the callback does later. The callback is kept in
  \<open>pending\<close>.
\<close>

definition loadDBSchema :: "env \<Rightarrow> FrameworkConfig \<Rightarrow> Manifest \<Rightarrow> state \<Rightarrow> outcome" where
  "loadDBSchema E cfg manifest s =
     (Inr (), log (SchemaGlobStarted (manifest_id manifest)) (s\<lparr>pending := pending s @ [manifest]\<rparr>))"

definition preparePlugin :: "env \<Rightarrow> FrameworkConfig \<Rightarrow> Manifest \<Rightarrow> state \<Rightarrow> outcome" where
  "preparePlugin E cfg manifest s = loadDBSchema E cfg manifest s"

definition instantiatePlugin :: "env \<Rightarrow> FrameworkConfig \<Rightarrow> Manifest \<Rightarrow> state \<Rightarrow> outcome" where
  "instantiatePlugin E cfg manifest s =
     (case new_server E (pluginBasePath cfg @ manifest_id manifest @ ''/server'') cfg manifest of
        Inr pluginInstance \<Rightarrow>
          (Inr (), log (Instantiated (manifest_id manifest))
                     (s\<lparr>instances := (instances s)(manifest_id manifest \<mapsto> pluginInstance)\<rparr>))
      | Inl err \<Rightarrow>
          (Inl (FrameworkError PLUGIN_LOAD_FAILED err), log (InstantiateFailed (manifest_id manifest)) s))"

definition registerRoutes :: "env \<Rightarrow> FrameworkConfig \<Rightarrow> Manifest \<Rightarrow> state \<Rightarrow> outcome" where
  "registerRoutes E cfg manifest s =
     (case init_router E (pluginBasePath cfg @ manifest_id manifest @ ''/routes'') manifest of
        None \<Rightarrow> (Inr (), log (RoutesRegistered (manifest_id manifest)) s)
      | Some err \<Rightarrow>
          (Inl (FrameworkError ROUTE_REGISTRY_FAILED err), log (RoutesFailed (manifest_id manifest)) s))"

text \<open>
  The body of \<^verbatim>\<open>loadDependencies\<close>, with the recursive call to \<^verbatim>\<open>loadPlugin\<close> as
  a parameter. The loop awaits each load and stops at the first rejection. Iterating
  over \<^verbatim>\<open>undefined\<close> throws a \<^verbatim>\<open>TypeError\<close>.
\<close>

fun for_of_dependencies ::
  "(IPlugin \<Rightarrow> state \<Rightarrow> outcome option) \<Rightarrow> IPlugin list \<Rightarrow> state \<Rightarrow> outcome option" where
  "for_of_dependencies load [] s = Some (Inr (), s)"
| "for_of_dependencies load (dependency # rest) s =
     (if plugin_id dependency \<notin> set (pluginsLoaded s)
      then (case load dependency s of
              None \<Rightarrow> None
            | Some (Inl e, s') \<Rightarrow> Some (Inl e, s')
            | Some (Inr u, s') \<Rightarrow> for_of_dependencies load rest s')
      else for_of_dependencies load rest s)"

definition loadDependencies_with ::
  "(IPlugin \<Rightarrow> state \<Rightarrow> outcome option) \<Rightarrow> Manifest \<Rightarrow> state \<Rightarrow> outcome option" where
  "loadDependencies_with load manifest s =
     (case dependencies (server manifest) of
        None \<Rightarrow> Some (Inl TypeError, s)
      | Some deps \<Rightarrow> for_of_dependencies load deps s)"

text \<open>
  The guard of step 3, \<^verbatim>\<open>typeof(manifest.server.dependencies) !== undefined\<close>:
  \<^verbatim>\<open>typeof\<close> yields a string, which is compared with the value \<^verbatim>\<open>undefined\<close>.
\<close>

definition typeof :: "IPlugin list option \<Rightarrow> string" where
  "typeof v = (case v of None \<Rightarrow> ''undefined'' | Some xs \<Rightarrow> ''object'')"

definition dependencies_guard :: "Manifest \<Rightarrow> bool" where
  "dependencies_guard manifest = (VStr (typeof (dependencies (server manifest))) \<noteq> VUndefined)"

text \<open>
  \<^verbatim>\<open>loadPlugin\<close>. The first argument bounds the depth of the recursion through
  \<^verbatim>\<open>loadDependencies\<close>; \<open>None\<close> means the bound was reached. A rejection is
  \<open>Some (Inl e, s)\<close>, with the state as it was when the error was thrown.
  \<^verbatim>\<open>_.cloneDeep(manifest)\<close> copies a value that nothing else changes.
\<close>

fun loadPlugin :: "env \<Rightarrow> FrameworkConfig \<Rightarrow> nat \<Rightarrow> IPlugin \<Rightarrow> state \<Rightarrow> outcome option" where
  "loadPlugin E cfg 0 plugin s = None"
| "loadPlugin E cfg (Suc n) plugin s =
     (let s1 = log (Claimed (plugin_id plugin))
                 (s\<lparr>pluginsLoaded := pluginsLoaded s @ [plugin_id plugin]\<rparr>)
      in case getManifest E cfg plugin s1 of
           (Inl e, s2) \<Rightarrow> Some (Inl e, s2)
         | (Inr manifest, s2) \<Rightarrow>
             (let pluginManifest = manifest in
              case (if dependencies_guard manifest
                    then loadDependencies_with (loadPlugin E cfg n) pluginManifest s2
                    else Some (Inr (), s2)) of
                None \<Rightarrow> None
              | Some (Inl e, s3) \<Rightarrow> Some (Inl e, s3)
              | Some (Inr u, s3) \<Rightarrow>
                  (case preparePlugin E cfg pluginManifest s3 of
                     (Inl e, s4) \<Rightarrow> Some (Inl e, s4)
                   | (Inr u, s4) \<Rightarrow>
                       (case instantiatePlugin E cfg pluginManifest s4 of
                          (Inl e, s5) \<Rightarrow> Some (Inl e, s5)
                        | (Inr u, s5) \<Rightarrow> Some (registerRoutes E cfg pluginManifest s5)))))"

definition loadDependencies ::
  "env \<Rightarrow> FrameworkConfig \<Rightarrow> nat \<Rightarrow> Manifest \<Rightarrow> state \<Rightarrow> outcome option" where
  "loadDependencies E cfg n manifest s = loadDependencies_with (loadPlugin E cfg n) manifest s"

text \<open>The method as the caller invokes it: \<^verbatim>\<open>this.config\<close> is read through the
  store as it is at the time of the call. The result is \<open>None\<close> when the recursion
  bound is reached, and also when the object behind \<^verbatim>\<open>_config\<close> is not a
  \<^verbatim>\<open>FrameworkConfig\<close>, which the type of the constructor's parameter excludes.\<close>

definition PluginLoader_loadPlugin ::
  "env \<Rightarrow> jsheap \<Rightarrow> nat \<Rightarrow> IPlugin \<Rightarrow> state \<Rightarrow> outcome option" where
  "PluginLoader_loadPlugin E h n plugin s =
     (case config h s of None \<Rightarrow> None | Some cfg \<Rightarrow> loadPlugin E cfg n plugin s)"

text \<open>
  The callback that \<^verbatim>\<open>loadDBSchema\<close> gave to \<^verbatim>\<open>glob\<close>, run by the event loop
  after \<^verbatim>\<open>loadDBSchema\<close> has returned. \<^verbatim>\<open>files.forEach\<close> starts one \<^verbatim>\<open>async\<close>
  function per file and drops its promise: a \<^verbatim>\<open>FrameworkError\<close> thrown in one of
  them rejects a promise that nobody holds. With an \<^verbatim>\<open>err\<close>, \<^verbatim>\<open>files\<close> is
  \<^verbatim>\<open>undefined\<close> and \<^verbatim>\<open>files.forEach\<close> throws in the callback.
\<close>

definition schema_file :: "env \<Rightarrow> Manifest \<Rightarrow> string \<Rightarrow> state \<Rightarrow> state" where
  "schema_file E manifest path s =
     (case create_schema E path manifest of
        None \<Rightarrow> log (SchemaCreated (manifest_id manifest) path) s
      | Some err \<Rightarrow>
          log (SchemaFailed (manifest_id manifest) path)
            (s\<lparr>unhandled := unhandled s @ [FrameworkError SCHEMA_LOADER_FAILED err]\<rparr>))"

definition glob_callback :: "env \<Rightarrow> FrameworkConfig \<Rightarrow> Manifest \<Rightarrow> state \<Rightarrow> state" where
  "glob_callback E cfg manifest s =
     (case glob E (pluginBasePath cfg @ manifest_id manifest @ ''/db/**/schema*.json'') of
        Inl err \<Rightarrow> s\<lparr>unhandled := unhandled s @ [TypeError]\<rparr>
      | Inr files \<Rightarrow> foldl (\<lambda>s path. schema_file E manifest path s) s files)"

definition run_pending :: "env \<Rightarrow> FrameworkConfig \<Rightarrow> state \<Rightarrow> state" where
  "run_pending E cfg s =
     foldl (\<lambda>s manifest. glob_callback E cfg manifest s) (s\<lparr>pending := []\<rparr>) (pending s)"

section \<open>States and paths named in the statements\<close>

text \<open>The state after step 1, after step 2, after \<^verbatim>\<open>loadDBSchema\<close> and after
  \<^verbatim>\<open>instantiatePlugin\<close>, and the three module paths.\<close>

definition claim :: "string \<Rightarrow> state \<Rightarrow> state" where
  "claim i s = log (Claimed i) (s\<lparr>pluginsLoaded := pluginsLoaded s @ [i]\<rparr>)"

definition resolved :: "string \<Rightarrow> state \<Rightarrow> state" where
  "resolved i s = log (ManifestResolved i) (claim i s)"

definition glob_started :: "Manifest \<Rightarrow> state \<Rightarrow> state" where
  "glob_started m s = log (SchemaGlobStarted (manifest_id m)) (s\<lparr>pending := pending s @ [m]\<rparr>)"

definition instantiated :: "Manifest \<Rightarrow> plugin_instance \<Rightarrow> state \<Rightarrow> state" where
  "instantiated m i s =
     log (Instantiated (manifest_id m)) ((glob_started m s)\<lparr>instances := (instances s)(manifest_id m \<mapsto> i)\<rparr>)"

definition manifest_path :: "FrameworkConfig \<Rightarrow> string \<Rightarrow> string" where
  "manifest_path cfg i = pluginBasePath cfg @ i @ ''/manifest''"

definition server_path :: "FrameworkConfig \<Rightarrow> Manifest \<Rightarrow> string" where
  "server_path cfg m = pluginBasePath cfg @ manifest_id m @ ''/server''"

definition routes_path :: "FrameworkConfig \<Rightarrow> Manifest \<Rightarrow> string" where
  "routes_path cfg m = pluginBasePath cfg @ manifest_id m @ ''/routes''"

text \<open>The plugin ids whose manifest can be resolved.\<close>

definition resolvable :: "env \<Rightarrow> FrameworkConfig \<Rightarrow> string set" where
  "resolvable E cfg = {i. \<exists>m. import_manifest E (manifest_path cfg i) = Inr m}"

text \<open>Concrete plugin repositories under \<^verbatim>\<open>/plugins/\<close>: a plugin has the manifest
  listed for it, a plugin that is not listed fails to import, and unless said otherwise
  every constructor and router succeeds and no plugin has schema files.\<close>

definition plugin_ref :: "string \<Rightarrow> IPlugin" where
  "plugin_ref i = \<lparr>plugin_id = i\<rparr>"

definition manifest_of :: "string \<Rightarrow> string list \<Rightarrow> Manifest" where
  "manifest_of i deps = \<lparr>manifest_id = i, server = \<lparr>dependencies = Some (map plugin_ref deps)\<rparr>\<rparr>"

definition repository :: "(string \<times> Manifest) list \<Rightarrow> env" where
  "repository ms =
     \<lparr>import_manifest = (\<lambda>path. case map_of (map (\<lambda>(i, m). (''/plugins/'' @ i @ ''/manifest'', m)) ms) path of
                                   Some m \<Rightarrow> Inr m | None \<Rightarrow> Inl (''Cannot find module '' @ path)),
      new_server = (\<lambda>path cfg m. Inr (PluginInstance path)),
      init_router = (\<lambda>path m. None),
      glob = (\<lambda>pattern. Inr []),
      create_schema = (\<lambda>path m. None)\<rparr>"

definition plugins_cfg :: FrameworkConfig where
  "plugins_cfg = \<lparr>pluginBasePath = ''/plugins/'', content = (\<lambda>n. TCut)\<rparr>"

definition initial_state :: "jsval \<Rightarrow> state" where
  "initial_state c = \<lparr>config_ref = c, pluginsLoaded = [], instances = Map.empty,
               pending = [], unhandled = [], events = []\<rparr>"

definition chain_env :: env where
  "chain_env = repository [(''A'', manifest_of ''A'' []), (''B'', manifest_of ''B'' [''A'']),
     (''C'', manifest_of ''C'' [''B''])]"

definition no_dependencies_env :: env where
  "no_dependencies_env = repository [(''A'', \<lparr>manifest_id = ''A'', server = \<lparr>dependencies = None\<rparr>\<rparr>)]"

text \<open>A load function only appends to the loaded set: the requested id first, then ids
  that are new and pairwise distinct.\<close>

definition appends_claims :: "(IPlugin \<Rightarrow> state \<Rightarrow> outcome option) \<Rightarrow> bool" where
  "appends_claims load =
     (\<forall>d s r s'. load d s = Some (r, s') \<longrightarrow>
        (\<exists>new. pluginsLoaded s' = pluginsLoaded s @ plugin_id d # new \<and> distinct (plugin_id d # new)
           \<and> set new \<inter> set (pluginsLoaded s) = {}))"

definition cycle_env :: env where
  "cycle_env = repository [(''A'', manifest_of ''A'' [''B'']), (''B'', manifest_of ''B'' [''A''])]"

definition broken_cycle_env :: env where
  "broken_cycle_env =
     (repository [(''A'', manifest_of ''A'' [''C'', ''B'']), (''B'', manifest_of ''B'' [''A'']),
                  (''C'', manifest_of ''C'' [])])
       \<lparr>new_server := (\<lambda>path cfg m. if path = ''/plugins/C/server''
                                      then Inl ''the constructor of C threw''
                                      else Inr (PluginInstance path))\<rparr>"

definition single_env :: env where
  "single_env = repository [(''X'', manifest_of ''X'' [])]"

text \<open>The state after one successful load of a plugin without dependencies, and after
  two.\<close>

definition loaded_once :: "string \<Rightarrow> state \<Rightarrow> state" where
  "loaded_once i s =
     log (RoutesRegistered i)
       (instantiated (manifest_of i []) (PluginInstance (''/plugins/'' @ i @ ''/server''))
          (resolved i s))"

text \<open>No manifest lookup failed in a stretch of the trace.\<close>

definition quiet :: "event list \<Rightarrow> bool" where
  "quiet evs = (\<forall>j. ManifestFailed j \<notin> set evs)"

text \<open>A stretch of the trace and the result that came with it: a fulfilled promise
  comes with no failed lookup, and a failed lookup is the last event, is the only one,
  and is what the promise was rejected with.\<close>

definition stops_at_failure :: "env \<Rightarrow> FrameworkConfig \<Rightarrow> error + unit \<Rightarrow> event list \<Rightarrow> bool" where
  "stops_at_failure E cfg r evs =
     (quiet evs \<or>
      (\<exists>i err pre. import_manifest E (manifest_path cfg i) = Inl err
         \<and> r = Inl (FrameworkError MANIFEST_NOT_FOUND err)
         \<and> evs = pre @ [ManifestFailed i] \<and> quiet pre))"

definition traced :: "env \<Rightarrow> FrameworkConfig \<Rightarrow> (IPlugin \<Rightarrow> state \<Rightarrow> outcome option) \<Rightarrow> bool" where
  "traced E cfg load =
     (\<forall>d s r s'. load d s = Some (r, s') \<longrightarrow>
        (\<exists>evs. events s' = events s @ evs \<and> stops_at_failure E cfg r evs
               \<and> (r = Inr () \<longrightarrow> quiet evs)))"

definition missing_dependency_env :: env where
  "missing_dependency_env =
     repository [(''P'', manifest_of ''P'' [''D1'', ''D2'', ''D3'']), (''D1'', manifest_of ''D1'' []),
                 (''D3'', manifest_of ''D3'' [])]"

fun instantiations :: "event list \<Rightarrow> string list" where
  "instantiations [] = []"
| "instantiations (Instantiated i # es) = i # instantiations es"
| "instantiations (e # es) = instantiations es"

text \<open>Steps 5 to 7 of \<^verbatim>\<open>loadPlugin\<close> together (\<^verbatim>\<open>preparePlugin\<close>,
  \<^verbatim>\<open>instantiatePlugin\<close>, \<^verbatim>\<open>registerRoutes\<close>), and what they add to the trace.\<close>

definition steps_5_to_7 :: "env \<Rightarrow> FrameworkConfig \<Rightarrow> Manifest \<Rightarrow> state \<Rightarrow> outcome" where
  "steps_5_to_7 E cfg m s =
     (case preparePlugin E cfg m s of
        (Inl e, s4) \<Rightarrow> (Inl e, s4)
      | (Inr u, s4) \<Rightarrow>
          (case instantiatePlugin E cfg m s4 of
             (Inl e, s5) \<Rightarrow> (Inl e, s5)
           | (Inr u, s5) \<Rightarrow> registerRoutes E cfg m s5))"

definition steps_5_to_7_events :: "env \<Rightarrow> FrameworkConfig \<Rightarrow> Manifest \<Rightarrow> event list" where
  "steps_5_to_7_events E cfg m =
     SchemaGlobStarted (manifest_id m) #
     (case new_server E (server_path cfg m) cfg m of
        Inl err \<Rightarrow> [InstantiateFailed (manifest_id m)]
      | Inr i \<Rightarrow>
          Instantiated (manifest_id m) #
          (case init_router E (routes_path cfg m) m of
             Some err \<Rightarrow> [RoutesFailed (manifest_id m)]
           | None \<Rightarrow> [RoutesRegistered (manifest_id m)]))"

text \<open>The plugin id an event is about.\<close>

fun event_id :: "event \<Rightarrow> string" where
  "event_id (Claimed i) = i"
| "event_id (ManifestResolved i) = i"
| "event_id (ManifestFailed i) = i"
| "event_id (SchemaGlobStarted i) = i"
| "event_id (Instantiated i) = i"
| "event_id (InstantiateFailed i) = i"
| "event_id (RoutesRegistered i) = i"
| "event_id (RoutesFailed i) = i"
| "event_id (SchemaCreated i path) = i"
| "event_id (SchemaFailed i path) = i"

definition events_of :: "string \<Rightarrow> event list \<Rightarrow> event list" where
  "events_of i evs = filter (\<lambda>e. event_id e = i) evs"

definition diamond_env :: env where
  "diamond_env =
     repository [(''A'', manifest_of ''A'' []), (''B'', manifest_of ''B'' [''A'']),
                 (''C'', manifest_of ''C'' [''A'']), (''D'', manifest_of ''D'' [''B'', ''C''])]"

text \<open>What was added to the trace between two states, and the ids claimed in a stretch
  of the trace.\<close>

definition added :: "state \<Rightarrow> state \<Rightarrow> event list" where
  "added s s' = drop (length (events s)) (events s')"

fun claims_in :: "event list \<Rightarrow> string list" where
  "claims_in [] = []"
| "claims_in (Claimed i # evs) = i # claims_in evs"
| "claims_in (e # evs) = claims_in evs"

text \<open>The later state continues the earlier one: the trace grew at its end, and the
  loaded set grew by the ids claimed in the new part of the trace.\<close>

definition extends :: "state \<Rightarrow> state \<Rightarrow> bool" where
  "extends s s' =
     (events s' = events s @ added s s'
      \<and> pluginsLoaded s' = pluginsLoaded s @ claims_in (added s s'))"

definition extending :: "(IPlugin \<Rightarrow> state \<Rightarrow> outcome option) \<Rightarrow> bool" where
  "extending load = (\<forall>d s r s'. load d s = Some (r, s') \<longrightarrow> extends s s')"

text \<open>The trace of one complete, successful load of the plugin \<open>i\<close>: it starts with
  the claim and the manifest resolution and ends with steps 5 to 7 of that plugin; in
  between are the loads of its dependencies.\<close>

definition complete_load :: "env \<Rightarrow> FrameworkConfig \<Rightarrow> string \<Rightarrow> event list \<Rightarrow> bool" where
  "complete_load E cfg i evs =
     (\<exists>m body. import_manifest E (manifest_path cfg i) = Inr m
        \<and> evs = [Claimed i, ManifestResolved i] @ body
                 @ [SchemaGlobStarted (manifest_id m), Instantiated (manifest_id m),
                    RoutesRegistered (manifest_id m)])"

definition ordered_env :: env where
  "ordered_env =
     repository [(''P'', manifest_of ''P'' [''D1'', ''D2'']), (''D1'', manifest_of ''D1'' []),
                 (''D2'', manifest_of ''D2'' [])]"

definition nested_env :: env where
  "nested_env =
     repository [(''P'', manifest_of ''P'' [''D1'', ''D2'']), (''D1'', manifest_of ''D1'' [''D2'']),
                 (''D2'', manifest_of ''D2'' [])]"

text \<open>A plugin with one schema file whose activator fails.\<close>

definition failing_schema_env :: env where
  "failing_schema_env =
     (repository [(''X'', manifest_of ''X'' [])])
       \<lparr>glob := (\<lambda>pattern. if pattern = ''/plugins/X/db/**/schema*.json''
                           then Inr [''/plugins/X/db/schema_table.json''] else Inr []),
        create_schema := (\<lambda>path m. Some ''schema activation failed'')\<rparr>"

text \<open>A value that is a primitive or points into the address range \<open>[lo, hi)\<close>.\<close>

definition in_region :: "nat \<Rightarrow> nat \<Rightarrow> jsval \<Rightarrow> bool" where
  "in_region lo hi v = (case v of VRef b \<Rightarrow> lo \<le> b \<and> b < hi | _ \<Rightarrow> True)"

text \<open>The objects at the addresses \<open>[lo, hi)\<close> are the same in both stores.\<close>

definition same_region :: "nat \<Rightarrow> nat \<Rightarrow> jsheap \<Rightarrow> jsheap \<Rightarrow> bool" where
  "same_region lo hi h1 h2 =
     (hi \<le> length h1 \<and> hi \<le> length h2 \<and> (\<forall>a. lo \<le> a \<and> a < hi \<longrightarrow> h1 ! a = h2 ! a))"

text \<open>The objects at the addresses \<open>[lo, hi)\<close> point into \<open>[lo, hi)\<close> only.\<close>

definition closed_region :: "nat \<Rightarrow> nat \<Rightarrow> jsheap \<Rightarrow> bool" where
  "closed_region lo hi h =
     (\<forall>a. lo \<le> a \<and> a < hi \<longrightarrow> (\<forall>fv\<in>set (h ! a). in_region lo hi (snd fv)))"

text \<open>A configuration object with a nested object, and what its owner does to it after
  the loader was constructed.\<close>

definition caller_heap :: jsheap where
  "caller_heap =
     [[(''pluginBasePath'', VStr ''/plugins/''), (''db'', VRef 1)],
      [(''host'', VStr ''localhost'')]]"

definition caller_mutations :: "mutation list" where
  "caller_mutations =
     [SetProp 0 ''pluginBasePath'' (VStr ''/elsewhere/''),
      SetProp 1 ''host'' (VStr ''remote''),
      NewObject [(''port'', VNum 9000)],
      SetProp 0 ''extra'' (VRef 4),
      DeleteProp 0 ''db'']"

text \<open>What happens to a loader in use: its owner calls \<^verbatim>\<open>loadPlugin\<close> (with a bound
  on the depth of the recursion), and the event loop runs the callbacks that
  \<^verbatim>\<open>glob\<close> holds. \<open>None\<close>: a call reached its bound.\<close>

datatype operation = LoadPlugin nat IPlugin | RunPending

fun perform :: "env \<Rightarrow> FrameworkConfig \<Rightarrow> operation \<Rightarrow> state \<Rightarrow> state option" where
  "perform E cfg (LoadPlugin n plugin) s = map_option snd (loadPlugin E cfg n plugin s)"
| "perform E cfg RunPending s = Some (run_pending E cfg s)"

fun perform_all :: "env \<Rightarrow> FrameworkConfig \<Rightarrow> operation list \<Rightarrow> state \<Rightarrow> state option" where
  "perform_all E cfg [] s = Some s"
| "perform_all E cfg (operation # rest) s =
     (case perform E cfg operation s of
        None \<Rightarrow> None
      | Some s1 \<Rightarrow> perform_all E cfg rest s1)"

text \<open>One turn of the loop of \<^verbatim>\<open>loadDependencies\<close>, for the dependency \<open>d\<close> in the
  state \<open>t\<close>, with its result \<open>r\<close>, the state \<open>t'\<close> it leaves and the stretch \<open>T\<close>
  it adds to the trace. A dependency whose id is in the loaded set is skipped: nothing
  happens. Otherwise the turn is one whole call of \<^verbatim>\<open>loadPlugin\<close> for \<open>d\<close>: its
  trace begins with the claim of \<open>d\<close>, and is a complete load of \<open>d\<close> when the call is
  fulfilled.\<close>

definition dependency_turn ::
  "env \<Rightarrow> FrameworkConfig \<Rightarrow> IPlugin \<Rightarrow> state \<Rightarrow> error + unit \<Rightarrow> state \<Rightarrow> event list \<Rightarrow> bool" where
  "dependency_turn E cfg d t r t' T =
     (if plugin_id d \<in> set (pluginsLoaded t) then r = Inr () \<and> t' = t \<and> T = []
      else (\<exists>k. loadPlugin E cfg k d t = Some (r, t'))
         \<and> events t' = events t @ T
         \<and> (\<exists>body. T = Claimed (plugin_id d) # body)
         \<and> (r = Inr () \<longrightarrow> complete_load E cfg (plugin_id d) T))"

text \<open>Two plugins, P with the dependency D2 and Q with the dependency D3; the manifests
  of D2 and of D3 are files that cannot be parsed, and fail with the same error.\<close>

definition unreadable_env :: env where
  "unreadable_env =
     (repository [])
       \<lparr>import_manifest := (\<lambda>path. if path = ''/plugins/P/manifest'' then Inr (manifest_of ''P'' [''D2''])
                                    else if path = ''/plugins/Q/manifest'' then Inr (manifest_of ''Q'' [''D3''])
                                    else Inl ''Unexpected end of JSON input'')\<rparr>"

text \<open>D1 depends on P, and P on D1 and D2.\<close>

definition reentrant_env :: env where
  "reentrant_env =
     repository [(''P'', manifest_of ''P'' [''D1'', ''D2'']), (''D1'', manifest_of ''D1'' [''P'']),
                 (''D2'', manifest_of ''D2'' [])]"

section \<open>Basic facts\<close>

lemma log_simps [simp]:
  "pluginsLoaded (log e s) = pluginsLoaded s"
  "instances (log e s) = instances s"
  "pending (log e s) = pending s"
  "unhandled (log e s) = unhandled s"
  "config_ref (log e s) = config_ref s"
  "events (log e s) = events s @ [e]"
  by (simp_all add: log_def)

lemma getManifest_loaded:
  "getManifest E cfg p s = (r, s') \<Longrightarrow> pluginsLoaded s' = pluginsLoaded s"
  by (auto simp: getManifest_def Let_def split: sum.splits)

lemma preparePlugin_loaded:
  "preparePlugin E cfg m s = (r, s') \<Longrightarrow> pluginsLoaded s' = pluginsLoaded s"
  by (auto simp: preparePlugin_def loadDBSchema_def)

lemma instantiatePlugin_loaded:
  "instantiatePlugin E cfg m s = (r, s') \<Longrightarrow> pluginsLoaded s' = pluginsLoaded s"
  by (auto simp: instantiatePlugin_def split: sum.splits)

lemma registerRoutes_loaded:
  "registerRoutes E cfg m s = (r, s') \<Longrightarrow> pluginsLoaded s' = pluginsLoaded s"
  by (auto simp: registerRoutes_def split: option.splits)

lemma dependencies_guard_True [simp]: "dependencies_guard m"
  by (simp add: dependencies_guard_def)

lemma loadPlugin_Suc:
  "loadPlugin E cfg (Suc n) p s =
     (case import_manifest E (manifest_path cfg (plugin_id p)) of
        Inl err \<Rightarrow> Some (Inl (FrameworkError MANIFEST_NOT_FOUND err),
                         log (ManifestFailed (plugin_id p)) (claim (plugin_id p) s))
      | Inr m \<Rightarrow>
          (case loadDependencies E cfg n m (resolved (plugin_id p) s) of
             None \<Rightarrow> None
           | Some (Inl e, s3) \<Rightarrow> Some (Inl e, s3)
           | Some (Inr u, s3) \<Rightarrow>
               (case new_server E (server_path cfg m) cfg m of
                  Inl err \<Rightarrow> Some (Inl (FrameworkError PLUGIN_LOAD_FAILED err),
                                   log (InstantiateFailed (manifest_id m)) (glob_started m s3))
                | Inr i \<Rightarrow>
                    (case init_router E (routes_path cfg m) m of
                       Some err \<Rightarrow> Some (Inl (FrameworkError ROUTE_REGISTRY_FAILED err),
                                         log (RoutesFailed (manifest_id m)) (instantiated m i s3))
                     | None \<Rightarrow> Some (Inr (), log (RoutesRegistered (manifest_id m)) (instantiated m i s3))))))"
  by (simp add: getManifest_def preparePlugin_def loadDBSchema_def
    instantiatePlugin_def registerRoutes_def loadDependencies_def Let_def
    manifest_path_def server_path_def routes_path_def
    claim_def resolved_def glob_started_def instantiated_def log_def
    split: sum.splits option.splits prod.splits)

declare loadPlugin.simps(2) [simp del]

lemma loadPlugin_Suc_cases:
  assumes "loadPlugin E cfg (Suc n) p s = Some (r, s')"
  obtains
    (manifest_failed) err where
      "import_manifest E (manifest_path cfg (plugin_id p)) = Inl err"
      "r = Inl (FrameworkError MANIFEST_NOT_FOUND err)"
      "s' = log (ManifestFailed (plugin_id p)) (claim (plugin_id p) s)"
  | (dependencies_failed) m e where
      "import_manifest E (manifest_path cfg (plugin_id p)) = Inr m"
      "loadDependencies E cfg n m (resolved (plugin_id p) s) = Some (Inl e, s')"
      "r = Inl e"
  | (instantiate_failed) m s3 err where
      "import_manifest E (manifest_path cfg (plugin_id p)) = Inr m"
      "loadDependencies E cfg n m (resolved (plugin_id p) s) = Some (Inr (), s3)"
      "new_server E (server_path cfg m) cfg m = Inl err"
      "r = Inl (FrameworkError PLUGIN_LOAD_FAILED err)"
      "s' = log (InstantiateFailed (manifest_id m)) (glob_started m s3)"
  | (routes_failed) m s3 i err where
      "import_manifest E (manifest_path cfg (plugin_id p)) = Inr m"
      "loadDependencies E cfg n m (resolved (plugin_id p) s) = Some (Inr (), s3)"
      "new_server E (server_path cfg m) cfg m = Inr i"
      "init_router E (routes_path cfg m) m = Some err"
      "r = Inl (FrameworkError ROUTE_REGISTRY_FAILED err)"
      "s' = log (RoutesFailed (manifest_id m)) (instantiated m i s3)"
  | (loaded) m s3 i where
      "import_manifest E (manifest_path cfg (plugin_id p)) = Inr m"
      "loadDependencies E cfg n m (resolved (plugin_id p) s) = Some (Inr (), s3)"
      "new_server E (server_path cfg m) cfg m = Inr i"
      "init_router E (routes_path cfg m) m = None"
      "r = Inr ()"
      "s' = log (RoutesRegistered (manifest_id m)) (instantiated m i s3)"
proof (cases "import_manifest E (manifest_path cfg (plugin_id p))")
  case (Inl err)
  with assms show ?thesis by (intro manifest_failed[of err]) (simp_all add: loadPlugin_Suc)
next
  case m: (Inr m)
  show ?thesis
  proof (cases "loadDependencies E cfg n m (resolved (plugin_id p) s)")
    case None
    with assms m show ?thesis by (simp add: loadPlugin_Suc)
  next
    case (Some a)
    obtain rd s3 where a: "a = (rd, s3)" by (cases a)
    show ?thesis
    proof (cases rd)
      case (Inl e)
      with assms m Some a show ?thesis
        by (intro dependencies_failed[of m e]) (simp_all add: loadPlugin_Suc)
    next
      case (Inr u)
      with Some a have d: "loadDependencies E cfg n m (resolved (plugin_id p) s) = Some (Inr (), s3)"
        by simp
      show ?thesis
      proof (cases "new_server E (server_path cfg m) cfg m")
        case (Inl err)
        with assms m d show ?thesis
          by (intro instantiate_failed[of m s3 err]) (simp_all add: loadPlugin_Suc)
      next
        case i: (Inr i)
        show ?thesis
        proof (cases "init_router E (routes_path cfg m) m")
          case None
          with assms m d i show ?thesis
            by (intro loaded[of m s3 i]) (simp_all add: loadPlugin_Suc)
        next
          case (Some err)
          with assms m d i show ?thesis
            by (intro routes_failed[of m s3 i err]) (simp_all add: loadPlugin_Suc)
        qed
      qed
    qed
  qed
qed

lemma for_of_claims:
  assumes IH: "\<And>d s r s'. load d s = Some (r, s') \<Longrightarrow>
     \<exists>new. pluginsLoaded s' = pluginsLoaded s @ plugin_id d # new \<and> distinct (plugin_id d # new)
         \<and> set new \<inter> set (pluginsLoaded s) = {}"
  shows "for_of_dependencies load ds s = Some (r, s') \<Longrightarrow>
     \<exists>new. pluginsLoaded s' = pluginsLoaded s @ new \<and> distinct new \<and> set new \<inter> set (pluginsLoaded s) = {}"
proof (induction ds arbitrary: s)
  case Nil
  then show ?case by simp
next
  case (Cons d ds)
  show ?case
  proof (cases "plugin_id d \<in> set (pluginsLoaded s)")
    case True
    with Cons show ?thesis by simp
  next
    case False
    with Cons.prems obtain r1 s1 where l: "load d s = Some (r1, s1)"
      by (auto split: option.splits)
    from IH[OF l] obtain new1 where n1: "pluginsLoaded s1 = pluginsLoaded s @ plugin_id d # new1"
      "distinct (plugin_id d # new1)" "set new1 \<inter> set (pluginsLoaded s) = {}" by blast
    show ?thesis
    proof (cases r1)
      case (Inl e)
      with Cons.prems False l have "s' = s1" by simp
      with n1 False show ?thesis by auto
    next
      case (Inr u)
      with Cons.prems False l have "for_of_dependencies load ds s1 = Some (r, s')" by simp
      from Cons.IH[OF this] obtain new2 where n2: "pluginsLoaded s' = pluginsLoaded s1 @ new2"
        "distinct new2" "set new2 \<inter> set (pluginsLoaded s1) = {}" by blast
      show ?thesis
        apply (rule exI[of _ "plugin_id d # new1 @ new2"])
        using n1 n2 False by auto
    qed
  qed
qed

lemma helper_state_simps [simp]:
  "pluginsLoaded (claim i s) = pluginsLoaded s @ [i]"
  "pluginsLoaded (resolved i s) = pluginsLoaded s @ [i]"
  "pluginsLoaded (glob_started m s) = pluginsLoaded s"
  "pluginsLoaded (instantiated m x s) = pluginsLoaded s"
  "events (claim i s) = events s @ [Claimed i]"
  "events (resolved i s) = events s @ [Claimed i, ManifestResolved i]"
  "events (glob_started m s) = events s @ [SchemaGlobStarted (manifest_id m)]"
  "events (instantiated m x s) = events s @ [SchemaGlobStarted (manifest_id m), Instantiated (manifest_id m)]"
  "instances (claim i s) = instances s"
  "instances (resolved i s) = instances s"
  "instances (glob_started m s) = instances s"
  "instances (instantiated m x s) = (instances s)(manifest_id m \<mapsto> x)"
  by (simp_all add: claim_def resolved_def glob_started_def instantiated_def)

lemma loadDependencies_cases:
  assumes "loadDependencies E cfg n m s = Some (r, s')"
  obtains
    (undefined) "dependencies (server m) = None" "r = Inl TypeError" "s' = s"
  | (iterated) deps where "dependencies (server m) = Some deps"
      "for_of_dependencies (loadPlugin E cfg n) deps s = Some (r, s')"
  using assms
  by (cases "dependencies (server m)") (auto simp: loadDependencies_def loadDependencies_with_def)

lemma loadPlugin_claims:
  "loadPlugin E cfg n p s = Some (r, s') \<Longrightarrow>
     \<exists>new. pluginsLoaded s' = pluginsLoaded s @ plugin_id p # new \<and> distinct (plugin_id p # new)
         \<and> set new \<inter> set (pluginsLoaded s) = {}"
proof (induction n arbitrary: p s r s')
  case 0
  then show ?case by simp
next
  case (Suc n)
  have deps: "\<exists>new. pluginsLoaded s3 = pluginsLoaded s @ plugin_id p # new \<and> distinct (plugin_id p # new)
         \<and> set new \<inter> set (pluginsLoaded s) = {}"
    if "loadDependencies E cfg n m (resolved (plugin_id p) s) = Some (rd, s3)" for m rd s3
    using that
  proof (cases rule: loadDependencies_cases)
    case undefined
    then show ?thesis by simp
  next
    case (iterated deps)
    have "\<exists>new. pluginsLoaded s3 = pluginsLoaded (resolved (plugin_id p) s) @ new \<and> distinct new
        \<and> set new \<inter> set (pluginsLoaded (resolved (plugin_id p) s)) = {}"
      by (rule for_of_claims[of "loadPlugin E cfg n", OF _ iterated(2)]) (rule Suc.IH)
    then obtain new where "pluginsLoaded s3 = pluginsLoaded (resolved (plugin_id p) s) @ new"
      "distinct new" "set new \<inter> set (pluginsLoaded (resolved (plugin_id p) s)) = {}"
      by blast
    then show ?thesis by auto
  qed
  from Suc.prems show ?case
    by (cases rule: loadPlugin_Suc_cases) (auto dest: deps)
qed

lemma for_of_mono:
  assumes "\<And>d s x. load d s = Some x \<Longrightarrow> load' d s = Some x"
  shows "for_of_dependencies load ds s = Some x \<Longrightarrow> for_of_dependencies load' ds s = Some x"
proof (induction ds arbitrary: s)
  case Nil
  then show ?case by simp
next
  case (Cons d ds)
  show ?case
  proof (cases "plugin_id d \<in> set (pluginsLoaded s)")
    case True
    with Cons show ?thesis by simp
  next
    case False
    with Cons.prems obtain r1 s1 where l: "load d s = Some (r1, s1)"
      by (auto split: option.splits)
    from assms[OF l] Cons.prems False l Cons.IH show ?thesis
      by (cases r1) auto
  qed
qed

lemma loadPlugin_Suc_mono:
  "loadPlugin E cfg n p s = Some x \<Longrightarrow> loadPlugin E cfg (Suc n) p s = Some x"
proof (induction n arbitrary: p s x)
  case 0
  then show ?case by simp
next
  case (Suc n)
  have "loadDependencies E cfg n m t = Some y \<Longrightarrow> loadDependencies E cfg (Suc n) m t = Some y" for m t y
    unfolding loadDependencies_def loadDependencies_with_def
    by (auto split: option.splits intro: for_of_mono[where load = "loadPlugin E cfg n"] Suc.IH)
  with Suc.prems show ?case
    unfolding loadPlugin_Suc[of E cfg "Suc n"] unfolding loadPlugin_Suc[of E cfg n]
    by (auto split: sum.splits option.splits prod.splits)
qed

lemma loadPlugin_mono:
  "loadPlugin E cfg n p s = Some x \<Longrightarrow> n \<le> k \<Longrightarrow> loadPlugin E cfg k p s = Some x"
  by (induction k) (auto simp: le_Suc_eq intro: loadPlugin_Suc_mono)

lemma loadPlugin_loaded_mono:
  "loadPlugin E cfg n p s = Some (r, s') \<Longrightarrow> set (pluginsLoaded s) \<subseteq> set (pluginsLoaded s')"
  by (drule loadPlugin_claims) auto

lemma for_of_total:
  assumes fin: "finite U"
    and tot: "\<And>d s. plugin_id d \<notin> set (pluginsLoaded s) \<Longrightarrow> card (U - set (pluginsLoaded s)) \<le> k
                 \<Longrightarrow> load d s \<noteq> None"
    and mono: "\<And>d s r s'. load d s = Some (r, s') \<Longrightarrow> set (pluginsLoaded s) \<subseteq> set (pluginsLoaded s')"
  shows "card (U - set (pluginsLoaded s)) \<le> k \<Longrightarrow> for_of_dependencies load ds s \<noteq> None"
proof (induction ds arbitrary: s)
  case Nil
  then show ?case by simp
next
  case (Cons d ds)
  show ?case
  proof (cases "plugin_id d \<in> set (pluginsLoaded s)")
    case True
    with Cons show ?thesis by simp
  next
    case False
    from tot[OF False Cons.prems] obtain r1 s1 where l: "load d s = Some (r1, s1)" by auto
    have "U - set (pluginsLoaded s1) \<subseteq> U - set (pluginsLoaded s)" using mono[OF l] by auto
    then have "card (U - set (pluginsLoaded s1)) \<le> card (U - set (pluginsLoaded s))"
      using fin by (intro card_mono) auto
    with Cons.prems have "for_of_dependencies load ds s1 \<noteq> None" by (intro Cons.IH) simp
    with False l show ?thesis by (cases r1) auto
  qed
qed

lemma loadDependencies_total:
  assumes fin: "finite (resolvable E cfg)"
    and tot: "\<And>d s. plugin_id d \<notin> set (pluginsLoaded s) \<Longrightarrow>
                 card (resolvable E cfg - set (pluginsLoaded s)) \<le> k \<Longrightarrow> loadPlugin E cfg n d s \<noteq> None"
    and k: "card (resolvable E cfg - set (pluginsLoaded s)) \<le> k"
  shows "loadDependencies E cfg n m s \<noteq> None"
proof (cases "dependencies (server m)")
  case None
  then show ?thesis by (simp add: loadDependencies_def loadDependencies_with_def)
next
  case (Some deps)
  have "for_of_dependencies (loadPlugin E cfg n) deps s \<noteq> None"
    by (rule for_of_total[OF fin tot loadPlugin_loaded_mono k])
  with Some show ?thesis by (simp add: loadDependencies_def loadDependencies_with_def)
qed

lemma loadPlugin_Suc_total:
  assumes "\<And>m. import_manifest E (manifest_path cfg (plugin_id p)) = Inr m
             \<Longrightarrow> loadDependencies E cfg n m (resolved (plugin_id p) s) \<noteq> None"
  shows "loadPlugin E cfg (Suc n) p s \<noteq> None"
  using assms unfolding loadPlugin_Suc
  by (auto split: sum.splits option.splits prod.splits)

lemma loadPlugin_total_fresh:
  assumes fin: "finite (resolvable E cfg)"
  shows "plugin_id p \<notin> set (pluginsLoaded s) \<Longrightarrow> card (resolvable E cfg - set (pluginsLoaded s)) \<le> k
           \<Longrightarrow> loadPlugin E cfg (Suc k) p s \<noteq> None"
proof (induction k arbitrary: p s)
  case 0
  show ?case
  proof (rule loadPlugin_Suc_total)
    fix m assume m: "import_manifest E (manifest_path cfg (plugin_id p)) = Inr m"
    then have "plugin_id p \<in> resolvable E cfg - set (pluginsLoaded s)"
      using "0.prems" by (auto simp: resolvable_def)
    moreover have "finite (resolvable E cfg - set (pluginsLoaded s))" using fin by simp
    ultimately have "card (resolvable E cfg - set (pluginsLoaded s)) > 0"
      using card_gt_0_iff by blast
    with "0.prems" show "loadDependencies E cfg 0 m (resolved (plugin_id p) s) \<noteq> None" by simp
  qed
next
  case (Suc k)
  show ?case
  proof (rule loadPlugin_Suc_total)
    fix m assume m: "import_manifest E (manifest_path cfg (plugin_id p)) = Inr m"
    then have in_u: "plugin_id p \<in> resolvable E cfg - set (pluginsLoaded s)"
      using Suc.prems by (auto simp: resolvable_def)
    have "resolvable E cfg - set (pluginsLoaded (resolved (plugin_id p) s))
            = (resolvable E cfg - set (pluginsLoaded s)) - {plugin_id p}" by auto
    then have "card (resolvable E cfg - set (pluginsLoaded (resolved (plugin_id p) s)))
            = card (resolvable E cfg - set (pluginsLoaded s)) - 1"
      using in_u by (simp del: helper_state_simps)
    with Suc.prems in_u have k: "card (resolvable E cfg - set (pluginsLoaded (resolved (plugin_id p) s))) \<le> k"
      by simp
    show "loadDependencies E cfg (Suc k) m (resolved (plugin_id p) s) \<noteq> None"
      by (rule loadDependencies_total[OF fin Suc.IH k])
  qed
qed

lemma loadPlugin_total:
  assumes fin: "finite (resolvable E cfg)"
  shows "loadPlugin E cfg (card (resolvable E cfg - set (pluginsLoaded s)) + 2) p s \<noteq> None"
proof -
  let ?c = "card (resolvable E cfg - set (pluginsLoaded s))"
  have "loadPlugin E cfg (Suc (Suc ?c)) p s \<noteq> None"
  proof (rule loadPlugin_Suc_total)
    fix m assume m: "import_manifest E (manifest_path cfg (plugin_id p)) = Inr m"
    have "resolvable E cfg - set (pluginsLoaded (resolved (plugin_id p) s))
            \<subseteq> resolvable E cfg - set (pluginsLoaded s)" by auto
    then have k: "card (resolvable E cfg - set (pluginsLoaded (resolved (plugin_id p) s))) \<le> ?c"
      using fin by (intro card_mono) auto
    show "loadDependencies E cfg (Suc ?c) m (resolved (plugin_id p) s) \<noteq> None"
      by (rule loadDependencies_total[OF fin loadPlugin_total_fresh[OF fin] k])
  qed
  then show ?thesis by simp
qed

lemma schema_file_loaded [simp]: "pluginsLoaded (schema_file E m path s) = pluginsLoaded s"
  by (simp add: schema_file_def split: option.splits)

lemma foldl_schema_file_loaded [simp]:
  "pluginsLoaded (foldl (\<lambda>s path. schema_file E m path s) s files) = pluginsLoaded s"
  by (induction files arbitrary: s) simp_all

lemma glob_callback_loaded [simp]: "pluginsLoaded (glob_callback E cfg m s) = pluginsLoaded s"
  by (simp add: glob_callback_def split: sum.splits)

lemma foldl_glob_callback_loaded [simp]:
  "pluginsLoaded (foldl (\<lambda>s m. glob_callback E cfg m s) s ms) = pluginsLoaded s"
  by (induction ms arbitrary: s) simp_all

lemma run_pending_loaded [simp]: "pluginsLoaded (run_pending E cfg s) = pluginsLoaded s"
  by (simp add: run_pending_def)

lemma count_list_distinct: "distinct xs \<Longrightarrow> count_list xs x = (if x \<in> set xs then 1 else 0)"
  by (induction xs) auto

lemma appends_claimsD:
  "appends_claims load \<Longrightarrow> load d s = Some (r, s') \<Longrightarrow>
     \<exists>new. pluginsLoaded s' = pluginsLoaded s @ plugin_id d # new \<and> distinct (plugin_id d # new)
         \<and> set new \<inter> set (pluginsLoaded s) = {}"
  unfolding appends_claims_def by blast

lemma loadPlugin_appends_claims: "appends_claims (loadPlugin E cfg n)"
  unfolding appends_claims_def by (blast dest: loadPlugin_claims)

lemma for_of_appends:
  assumes "appends_claims load" and "for_of_dependencies load ds s = Some (r, s')"
  shows "\<exists>new. pluginsLoaded s' = pluginsLoaded s @ new \<and> distinct new
           \<and> set new \<inter> set (pluginsLoaded s) = {}"
  by (rule for_of_claims[OF _ assms(2)]) (rule appends_claimsD[OF assms(1)])

lemma for_of_loaded_mono:
  assumes "appends_claims load" and "for_of_dependencies load ds s = Some (r, s')"
  shows "set (pluginsLoaded s) \<subseteq> set (pluginsLoaded s')"
  using for_of_appends[OF assms] by auto

lemma loadDependencies_loaded_mono:
  assumes "loadDependencies E cfg n m s = Some (r, s')"
  shows "set (pluginsLoaded s) \<subseteq> set (pluginsLoaded s')"
  using assms
proof (cases rule: loadDependencies_cases)
  case undefined
  then show ?thesis by simp
next
  case (iterated deps)
  show ?thesis
    by (rule for_of_loaded_mono[OF loadPlugin_appends_claims iterated(2)])
qed

lemma for_of_success_loaded:
  assumes claims: "appends_claims load"
  shows "for_of_dependencies load ds s = Some (Inr u, s') \<Longrightarrow> d \<in> set ds
           \<Longrightarrow> plugin_id d \<in> set (pluginsLoaded s')"
proof (induction ds arbitrary: s)
  case Nil
  then show ?case by simp
next
  case (Cons x ds)
  show ?case
  proof (cases "plugin_id x \<in> set (pluginsLoaded s)")
    case True
    with Cons.prems have rest: "for_of_dependencies load ds s = Some (Inr u, s')" by simp
    show ?thesis
    proof (cases "d = x")
      case True
      with \<open>plugin_id x \<in> set (pluginsLoaded s)\<close>
        for_of_loaded_mono[OF claims rest] show ?thesis by auto
    next
      case False
      with Cons.prems have "d \<in> set ds" by simp
      from Cons.IH[OF rest this] show ?thesis .
    qed
  next
    case False
    with Cons.prems obtain r1 s1 where l: "load x s = Some (r1, s1)"
      by (auto split: option.splits)
    with Cons.prems False obtain u1 where r1: "r1 = Inr u1" by (cases r1) auto
    with Cons.prems False l have rest: "for_of_dependencies load ds s1 = Some (Inr u, s')" by simp
    show ?thesis
    proof (cases "d = x")
      case True
      from appends_claimsD[OF claims l] have "plugin_id x \<in> set (pluginsLoaded s1)" by auto
      with True for_of_loaded_mono[OF claims rest] show ?thesis by auto
    next
      case False
      with Cons.prems have "d \<in> set ds" by simp
      from Cons.IH[OF rest this] show ?thesis .
    qed
  qed
qed

lemma for_of_first_loaded:
  assumes claims: "appends_claims load"
    and run: "for_of_dependencies load (d # ds) s = Some (r, s')"
  shows "plugin_id d \<in> set (pluginsLoaded s')"
proof (cases "plugin_id d \<in> set (pluginsLoaded s)")
  case True
  with for_of_loaded_mono[OF claims run] show ?thesis by auto
next
  case False
  with run obtain r1 s1 where l: "load d s = Some (r1, s1)"
    by (auto split: option.splits)
  from appends_claimsD[OF claims l] have in1: "plugin_id d \<in> set (pluginsLoaded s1)" by auto
  show ?thesis
  proof (cases r1)
    case (Inl e)
    with run False l in1 show ?thesis by simp
  next
    case (Inr u1)
    with run False l have "for_of_dependencies load ds s1 = Some (r, s')" by simp
    from for_of_loaded_mono[OF claims this] in1 show ?thesis by auto
  qed
qed

text \<open>What is known of the dependencies loop whenever the manifest was resolved.\<close>

lemma loadPlugin_Suc_dependencies:
  assumes "loadPlugin E cfg (Suc n) p s = Some (r, s')"
    and "import_manifest E (manifest_path cfg (plugin_id p)) = Inr m"
  shows "\<exists>rd s3. loadDependencies E cfg n m (resolved (plugin_id p) s) = Some (rd, s3)
           \<and> pluginsLoaded s' = pluginsLoaded s3 \<and> (r = Inr () \<longrightarrow> rd = Inr ())"
  using assms(1)
proof (cases rule: loadPlugin_Suc_cases)
  case (manifest_failed err)
  with assms(2) show ?thesis by simp
next
  case (dependencies_failed m' e)
  with assms(2) show ?thesis by simp
next
  case (instantiate_failed m' s3 err)
  with assms(2) show ?thesis by simp
next
  case (routes_failed m' s3 i err)
  with assms(2) show ?thesis by simp
next
  case (loaded m' s3 i)
  with assms(2) show ?thesis by simp
qed

lemma resolvable_repository: "resolvable (repository ms) plugins_cfg \<subseteq> fst ` set ms"
proof
  fix i assume "i \<in> resolvable (repository ms) plugins_cfg"
  then obtain m where
    "map_of (map (\<lambda>(j, m). (''/plugins/'' @ j @ ''/manifest'', m)) ms) (''/plugins/'' @ i @ ''/manifest'') = Some m"
    by (auto simp: resolvable_def repository_def manifest_path_def plugins_cfg_def split: option.splits)
  from map_of_SomeD[OF this] show "i \<in> fst ` set ms" by force
qed

lemma finite_resolvable_repository: "finite (resolvable (repository ms) plugins_cfg)"
  by (rule finite_subset[OF resolvable_repository]) simp

lemma for_of_all_loaded:
  "\<forall>d\<in>set deps. plugin_id d \<in> set (pluginsLoaded s) \<Longrightarrow>
     for_of_dependencies load deps s = Some (Inr (), s)"
  by (induction deps) simp_all

lemma tracedD:
  "traced E cfg load \<Longrightarrow> load d s = Some (r, s') \<Longrightarrow>
     \<exists>evs. events s' = events s @ evs \<and> stops_at_failure E cfg r evs \<and> (r = Inr () \<longrightarrow> quiet evs)"
  unfolding traced_def by blast

lemma quiet_simps [simp]:
  "quiet []"
  "quiet (e # evs) = ((\<forall>j. e \<noteq> ManifestFailed j) \<and> quiet evs)"
  "quiet (evs @ evs') = (quiet evs \<and> quiet evs')"
  by (auto simp: quiet_def)

lemma stops_at_failure_quiet: "quiet evs \<Longrightarrow> stops_at_failure E cfg r evs"
  by (simp add: stops_at_failure_def)

lemma stops_at_failure_append:
  assumes "quiet evs1" and "stops_at_failure E cfg r evs2"
  shows "stops_at_failure E cfg r (evs1 @ evs2)"
proof (cases "quiet evs2")
  case True
  with assms(1) show ?thesis by (simp add: stops_at_failure_def)
next
  case False
  with assms(2) obtain i err pre where
    f: "import_manifest E (manifest_path cfg i) = Inl err" "r = Inl (FrameworkError MANIFEST_NOT_FOUND err)"
       "evs2 = pre @ [ManifestFailed i]" "quiet pre"
    unfolding stops_at_failure_def by blast
  have "evs1 @ evs2 = (evs1 @ pre) @ [ManifestFailed i]" using f(3) by simp
  moreover have "quiet (evs1 @ pre)" using assms(1) f(4) by simp
  ultimately show ?thesis unfolding stops_at_failure_def using f(1,2) by blast
qed

lemma for_of_traced:
  assumes tr: "traced E cfg load"
  shows "for_of_dependencies load ds s = Some (r, s') \<Longrightarrow>
     \<exists>evs. events s' = events s @ evs \<and> stops_at_failure E cfg r evs \<and> (r = Inr () \<longrightarrow> quiet evs)"
proof (induction ds arbitrary: s)
  case Nil
  then have "events s' = events s @ []" "r = Inr ()" by simp_all
  then show ?case using stops_at_failure_quiet[of "[]"] quiet_simps(1) by blast
next
  case (Cons d ds)
  show ?case
  proof (cases "plugin_id d \<in> set (pluginsLoaded s)")
    case True
    with Cons.prems have "for_of_dependencies load ds s = Some (r, s')" by simp
    then show ?thesis by (rule Cons.IH)
  next
    case False
    with Cons.prems obtain r1 s1 where l: "load d s = Some (r1, s1)"
      by (auto split: option.splits)
    from tracedD[OF tr l] obtain evs1 where
      e1: "events s1 = events s @ evs1" "stops_at_failure E cfg r1 evs1" "r1 = Inr () \<longrightarrow> quiet evs1"
      by blast
    show ?thesis
    proof (cases r1)
      case (Inl e)
      with Cons.prems False l have "r = r1" "s' = s1" by simp_all
      with e1 show ?thesis by blast
    next
      case (Inr u)
      with Cons.prems False l have rest: "for_of_dependencies load ds s1 = Some (r, s')" by simp
      from Cons.IH[OF rest] obtain evs2 where
        e2: "events s' = events s1 @ evs2" "stops_at_failure E cfg r evs2" "r = Inr () \<longrightarrow> quiet evs2"
        by blast
      from Inr e1(3) have q1: "quiet evs1" by simp
      have "events s' = events s @ (evs1 @ evs2)" using e1(1) e2(1) by simp
      moreover have "stops_at_failure E cfg r (evs1 @ evs2)"
        by (rule stops_at_failure_append[OF q1 e2(2)])
      moreover have "r = Inr () \<longrightarrow> quiet (evs1 @ evs2)" using q1 e2(3) by simp
      ultimately show ?thesis by blast
    qed
  qed
qed

lemma loadDependencies_traced:
  assumes tr: "traced E cfg (loadPlugin E cfg n)"
    and run: "loadDependencies E cfg n m s = Some (r, s')"
  shows "\<exists>evs. events s' = events s @ evs \<and> stops_at_failure E cfg r evs \<and> (r = Inr () \<longrightarrow> quiet evs)"
  using run
proof (cases rule: loadDependencies_cases)
  case undefined
  then have "events s' = events s @ []" "r \<noteq> Inr ()" by simp_all
  then show ?thesis using stops_at_failure_quiet[of "[]"] quiet_simps(1) by blast
next
  case (iterated deps)
  show ?thesis by (rule for_of_traced[OF tr iterated(2)])
qed

lemma loadPlugin_traced: "traced E cfg (loadPlugin E cfg n)"
proof (induction n)
  case 0
  show ?case by (simp add: traced_def)
next
  case (Suc n)
  show ?case unfolding traced_def
  proof (intro allI impI)
    fix p s r s'
    assume run: "loadPlugin E cfg (Suc n) p s = Some (r, s')"
    let ?i = "plugin_id p"
    have deps: "\<exists>evs. events s3 = events s @ [Claimed ?i, ManifestResolved ?i] @ evs
        \<and> stops_at_failure E cfg rd evs \<and> (rd = Inr () \<longrightarrow> quiet evs)"
      if "loadDependencies E cfg n m (resolved ?i s) = Some (rd, s3)" for m rd s3
      using loadDependencies_traced[OF Suc that] by simp
    from run show "\<exists>evs. events s' = events s @ evs \<and> stops_at_failure E cfg r evs
        \<and> (r = Inr () \<longrightarrow> quiet evs)"
    proof (cases rule: loadPlugin_Suc_cases)
      case (manifest_failed err)
      have "events s' = events s @ [Claimed ?i] @ [ManifestFailed ?i]"
        using manifest_failed(3) by simp
      moreover have "stops_at_failure E cfg r ([Claimed ?i] @ [ManifestFailed ?i])"
      proof -
        have "import_manifest E (manifest_path cfg ?i) = Inl err
            \<and> r = Inl (FrameworkError MANIFEST_NOT_FOUND err)
            \<and> [Claimed ?i] @ [ManifestFailed ?i] = [Claimed ?i] @ [ManifestFailed ?i]
            \<and> quiet [Claimed ?i]"
          using manifest_failed(1,2) by simp
        then show ?thesis unfolding stops_at_failure_def by blast
      qed
      moreover have "r \<noteq> Inr ()" using manifest_failed(2) by simp
      ultimately show ?thesis by blast
    next
      case (dependencies_failed m e)
      from deps[OF dependencies_failed(2)] obtain evs where
        e: "events s' = events s @ [Claimed ?i, ManifestResolved ?i] @ evs"
           "stops_at_failure E cfg (Inl e) evs" by blast
      have "stops_at_failure E cfg r ([Claimed ?i, ManifestResolved ?i] @ evs)"
        unfolding dependencies_failed(3) by (rule stops_at_failure_append[OF _ e(2)]) simp
      moreover have "r \<noteq> Inr ()" using dependencies_failed(3) by simp
      ultimately show ?thesis using e(1) by blast
    next
      case (instantiate_failed m s3 err)
      from deps[OF instantiate_failed(2)] obtain evs where
        e: "events s3 = events s @ [Claimed ?i, ManifestResolved ?i] @ evs" "quiet evs" by blast
      let ?all = "[Claimed ?i, ManifestResolved ?i] @ evs
                    @ [SchemaGlobStarted (manifest_id m), InstantiateFailed (manifest_id m)]"
      have "events s' = events s @ ?all" using instantiate_failed(5) e(1) by simp
      moreover have "quiet ?all" using e(2) by simp
      ultimately show ?thesis using stops_at_failure_quiet by blast
    next
      case (routes_failed m s3 i err)
      from deps[OF routes_failed(2)] obtain evs where
        e: "events s3 = events s @ [Claimed ?i, ManifestResolved ?i] @ evs" "quiet evs" by blast
      let ?all = "[Claimed ?i, ManifestResolved ?i] @ evs
                    @ [SchemaGlobStarted (manifest_id m), Instantiated (manifest_id m),
                       RoutesFailed (manifest_id m)]"
      have "events s' = events s @ ?all" using routes_failed(6) e(1) by simp
      moreover have "quiet ?all" using e(2) by simp
      ultimately show ?thesis using stops_at_failure_quiet by blast
    next
      case (loaded m s3 i)
      from deps[OF loaded(2)] obtain evs where
        e: "events s3 = events s @ [Claimed ?i, ManifestResolved ?i] @ evs" "quiet evs" by blast
      let ?all = "[Claimed ?i, ManifestResolved ?i] @ evs
                    @ [SchemaGlobStarted (manifest_id m), Instantiated (manifest_id m),
                       RoutesRegistered (manifest_id m)]"
      have "events s' = events s @ ?all" using loaded(6) e(1) by simp
      moreover have "quiet ?all" using e(2) by simp
      ultimately show ?thesis using stops_at_failure_quiet by blast
    qed
  qed
qed

lemma repository_collaborators [simp]:
  "new_server (repository ms) path cfg m = Inr (PluginInstance path)"
  "init_router (repository ms) path m = None"
  "glob (repository ms) pattern = Inr []"
  "create_schema (repository ms) path m = None"
  by (simp_all add: repository_def)

lemma loadPlugin_Suc_steps:
  "loadPlugin E cfg (Suc n) p s =
     (case import_manifest E (manifest_path cfg (plugin_id p)) of
        Inl err \<Rightarrow> Some (Inl (FrameworkError MANIFEST_NOT_FOUND err),
                         log (ManifestFailed (plugin_id p)) (claim (plugin_id p) s))
      | Inr m \<Rightarrow>
          (case loadDependencies E cfg n m (resolved (plugin_id p) s) of
             None \<Rightarrow> None
           | Some (Inl e, s3) \<Rightarrow> Some (Inl e, s3)
           | Some (Inr u, s3) \<Rightarrow> Some (steps_5_to_7 E cfg m s3)))"
  by (simp add: loadPlugin.simps(2) steps_5_to_7_def loadDependencies_def getManifest_def Let_def
        manifest_path_def claim_def resolved_def log_def
        split: sum.splits option.splits prod.splits)

lemma steps_5_to_7_state:
  assumes "steps_5_to_7 E cfg m s = (r, s')"
  shows "events s' = events s @ steps_5_to_7_events E cfg m"
    and "pluginsLoaded s' = pluginsLoaded s"
  using assms
  by (auto simp: steps_5_to_7_def steps_5_to_7_events_def preparePlugin_def loadDBSchema_def
        instantiatePlugin_def registerRoutes_def server_path_def routes_path_def
        split: sum.splits option.splits)

lemma events_of_simps [simp]:
  "events_of i [] = []"
  "events_of i (e # evs) = (if event_id e = i then e # events_of i evs else events_of i evs)"
  "events_of i (evs @ evs') = events_of i evs @ events_of i evs'"
  by (simp_all add: events_of_def)

lemma events_of_steps_5_to_7:
  "events_of i (steps_5_to_7_events E cfg m) =
     (if manifest_id m = i then steps_5_to_7_events E cfg m else [])"
  by (simp add: steps_5_to_7_events_def split: sum.splits option.splits)

lemma loadPlugin_leaf:
  assumes "import_manifest E (manifest_path cfg i) = Inr m"
    and "dependencies (server m) = Some deps"
    and "\<forall>d\<in>set deps. plugin_id d \<in> set (pluginsLoaded s) \<or> plugin_id d = i"
  shows "loadPlugin E cfg (Suc n) (plugin_ref i) s = Some (steps_5_to_7 E cfg m (resolved i s))"
proof -
  have "for_of_dependencies (loadPlugin E cfg n) deps (resolved i s) = Some (Inr (), resolved i s)"
    by (rule for_of_all_loaded) (use assms(3) in auto)
  with assms(1,2) show ?thesis
    by (simp add: loadPlugin_Suc_steps plugin_ref_def loadDependencies_def loadDependencies_with_def)
qed

lemma loadPlugin_one_dependency:
  assumes "import_manifest E (manifest_path cfg i) = Inr m"
    and "dependencies (server m) = Some [plugin_ref d]"
    and "d \<notin> set (pluginsLoaded s)" "d \<noteq> i"
    and "loadPlugin E cfg n (plugin_ref d) (resolved i s) = Some (rd, sd)"
  shows "loadPlugin E cfg (Suc n) (plugin_ref i) s =
           (case rd of Inl e \<Rightarrow> Some (Inl e, sd) | Inr u \<Rightarrow> Some (steps_5_to_7 E cfg m sd))"
  using assms
  by (simp add: loadPlugin_Suc_steps plugin_ref_def loadDependencies_def loadDependencies_with_def
        split: sum.splits)

lemma manifest_of_simps [simp]:
  "manifest_id (manifest_of i ds) = i"
  "dependencies (server (manifest_of i ds)) = Some (map plugin_ref ds)"
  by (simp_all add: manifest_of_def)

lemma plugin_id_plugin_ref [simp]: "plugin_id (plugin_ref i) = i"
  by (simp add: plugin_ref_def)

lemma claims_in_append [simp]: "claims_in (evs @ evs') = claims_in evs @ claims_in evs'"
  by (induction evs rule: claims_in.induct) simp_all

lemma set_claims_in: "i \<in> set (claims_in evs) \<longleftrightarrow> Claimed i \<in> set evs"
  by (induction evs rule: claims_in.induct) auto

lemma added_append: "events s' = events s @ evs \<Longrightarrow> added s s' = evs"
  by (simp add: added_def)

lemma extendsI:
  "events s' = events s @ evs \<Longrightarrow> pluginsLoaded s' = pluginsLoaded s @ claims_in evs \<Longrightarrow> extends s s'"
  by (simp add: extends_def added_def)

lemma extends_refl: "extends s s"
  by (rule extendsI[of _ _ "[]"]) simp_all

lemma extends_trans:
  assumes "extends s s1" and "extends s1 s2"
  shows "extends s s2" and "added s s2 = added s s1 @ added s1 s2"
proof -
  have e: "events s2 = events s @ (added s s1 @ added s1 s2)"
    using assms by (simp add: extends_def)
  then show "added s s2 = added s s1 @ added s1 s2" by (rule added_append)
  have "pluginsLoaded s2 = pluginsLoaded s @ claims_in (added s s1 @ added s1 s2)"
    using assms by (simp add: extends_def)
  with e show "extends s s2" by (rule extendsI)
qed

lemma extendingD: "extending load \<Longrightarrow> load d s = Some (r, s') \<Longrightarrow> extends s s'"
  unfolding extending_def by blast

lemma for_of_extends:
  assumes ex: "extending load"
  shows "for_of_dependencies load ds s = Some (r, s') \<Longrightarrow> extends s s'"
proof (induction ds arbitrary: s)
  case Nil
  then show ?case by (simp add: extends_refl)
next
  case (Cons d ds)
  show ?case
  proof (cases "plugin_id d \<in> set (pluginsLoaded s)")
    case True
    with Cons.prems have "for_of_dependencies load ds s = Some (r, s')" by simp
    then show ?thesis by (rule Cons.IH)
  next
    case False
    with Cons.prems obtain r1 s1 where l: "load d s = Some (r1, s1)"
      by (auto split: option.splits)
    have e1: "extends s s1" by (rule extendingD[OF ex l])
    show ?thesis
    proof (cases r1)
      case (Inl e)
      with Cons.prems False l have "s' = s1" by simp
      with e1 show ?thesis by simp
    next
      case (Inr u)
      with Cons.prems False l have "for_of_dependencies load ds s1 = Some (r, s')" by simp
      then have "extends s1 s'" by (rule Cons.IH)
      with e1 show ?thesis by (rule extends_trans(1))
    qed
  qed
qed

lemma loadDependencies_extends:
  assumes "extending (loadPlugin E cfg n)" and "loadDependencies E cfg n m s = Some (r, s')"
  shows "extends s s'"
  using assms(2)
proof (cases rule: loadDependencies_cases)
  case undefined
  then show ?thesis by (simp add: extends_refl)
next
  case (iterated deps)
  show ?thesis by (rule for_of_extends[OF assms(1) iterated(2)])
qed

lemma extends_resolved: "extends s (resolved i s)"
  by (rule extendsI[of _ _ "[Claimed i, ManifestResolved i]"]) simp_all

lemma extends_claim_failed: "extends s (log (ManifestFailed i) (claim i s))"
  by (rule extendsI[of _ _ "[Claimed i, ManifestFailed i]"]) simp_all

lemma extends_steps:
  "extends s (log (InstantiateFailed i) (glob_started m s))"
  "extends s (log (RoutesFailed i) (instantiated m x s))"
  "extends s (log (RoutesRegistered i) (instantiated m x s))"
  by (rule extendsI[of _ _ "[SchemaGlobStarted (manifest_id m), InstantiateFailed i]"], simp, simp)
     (rule extendsI[of _ _ "[SchemaGlobStarted (manifest_id m), Instantiated (manifest_id m), RoutesFailed i]"], simp, simp,
      rule extendsI[of _ _ "[SchemaGlobStarted (manifest_id m), Instantiated (manifest_id m), RoutesRegistered i]"], simp, simp)

lemma loadPlugin_extending: "extending (loadPlugin E cfg n)"
proof (induction n)
  case 0
  show ?case by (simp add: extending_def)
next
  case (Suc n)
  show ?case unfolding extending_def
  proof (intro allI impI)
    fix p s r s'
    assume run: "loadPlugin E cfg (Suc n) p s = Some (r, s')"
    have deps: "extends s s3"
      if "loadDependencies E cfg n m (resolved (plugin_id p) s) = Some (rd, s3)" for m rd s3
      by (rule extends_trans(1)[OF extends_resolved loadDependencies_extends[OF Suc that]])
    from run show "extends s s'"
    proof (cases rule: loadPlugin_Suc_cases)
      case (manifest_failed err)
      then show ?thesis by (simp add: extends_claim_failed)
    next
      case (dependencies_failed m e)
      then show ?thesis by (simp add: deps)
    next
      case (instantiate_failed m s3 err)
      from deps[OF instantiate_failed(2)] extends_steps(1)[of s3 "manifest_id m" m]
      show ?thesis unfolding instantiate_failed(5) by (rule extends_trans(1))
    next
      case (routes_failed m s3 i err)
      from deps[OF routes_failed(2)] extends_steps(2)[of s3 "manifest_id m" m i]
      show ?thesis unfolding routes_failed(6) by (rule extends_trans(1))
    next
      case (loaded m s3 i)
      from deps[OF loaded(2)] extends_steps(3)[of s3 "manifest_id m" m i]
      show ?thesis unfolding loaded(6) by (rule extends_trans(1))
    qed
  qed
qed

lemma loadPlugin_complete_load:
  assumes "loadPlugin E cfg n p s = Some (Inr (), s')"
  shows "complete_load E cfg (plugin_id p) (added s s')"
proof (cases n)
  case 0
  with assms show ?thesis by simp
next
  case (Suc k)
  from assms[unfolded Suc] show ?thesis
  proof (cases rule: loadPlugin_Suc_cases)
    case (loaded m s3 i)
    let ?i = "plugin_id p"
    have e3: "extends (resolved ?i s) s3"
      by (rule loadDependencies_extends[OF loadPlugin_extending loaded(2)])
    then have "events s3 = events s @ [Claimed ?i, ManifestResolved ?i] @ added (resolved ?i s) s3"
      by (simp add: extends_def)
    then have "events s' = events s @ ([Claimed ?i, ManifestResolved ?i] @ added (resolved ?i s) s3
                 @ [SchemaGlobStarted (manifest_id m), Instantiated (manifest_id m),
                    RoutesRegistered (manifest_id m)])"
      using loaded(6) by simp
    then have "added s s' = [Claimed ?i, ManifestResolved ?i] @ added (resolved ?i s) s3
                 @ [SchemaGlobStarted (manifest_id m), Instantiated (manifest_id m),
                    RoutesRegistered (manifest_id m)]"
      by (rule added_append)
    with loaded(1) show ?thesis unfolding complete_load_def by blast
  qed simp_all
qed

lemma helper_state_pending [simp]:
  "pending (claim i s) = pending s"
  "pending (resolved i s) = pending s"
  "pending (glob_started m s) = pending s @ [m]"
  "pending (instantiated m x s) = pending s @ [m]"
  by (simp_all add: claim_def resolved_def glob_started_def instantiated_def)

lemma loaded_once_simps [simp]:
  "events (loaded_once i s) = events s @ [Claimed i, ManifestResolved i, SchemaGlobStarted i,
     Instantiated i, RoutesRegistered i]"
  "pluginsLoaded (loaded_once i s) = pluginsLoaded s @ [i]"
  "pending (loaded_once i s) = pending s @ [manifest_of i []]"
  by (simp_all add: loaded_once_def)

lemma repository_leaf:
  assumes "import_manifest (repository ms) (manifest_path plugins_cfg i) = Inr (manifest_of i [])"
  shows "loadPlugin (repository ms) plugins_cfg (Suc n) (plugin_ref i) s = Some (Inr (), loaded_once i s)"
  using assms
  by (simp add: loadPlugin_Suc loadDependencies_def loadDependencies_with_def loaded_once_def
        server_path_def plugins_cfg_def)

lemma loadPlugin_ignores_schema:
  "loadPlugin (E\<lparr>glob := g, create_schema := f\<rparr>) cfg n p s = loadPlugin E cfg n p s"
proof (induction n arbitrary: p s)
  case 0
  show ?case by simp
next
  case (Suc n)
  have "loadPlugin (E\<lparr>glob := g, create_schema := f\<rparr>) cfg n = loadPlugin E cfg n"
    by (intro ext) (rule Suc)
  then have "loadDependencies (E\<lparr>glob := g, create_schema := f\<rparr>) cfg n m t
               = loadDependencies E cfg n m t" for m t
    by (simp add: loadDependencies_def)
  then show ?case
    by (simp add: loadPlugin_Suc split: sum.splits option.splits prod.splits)
qed

lemma helper_state_unhandled [simp]:
  "unhandled (claim i s) = unhandled s"
  "unhandled (resolved i s) = unhandled s"
  "unhandled (glob_started m s) = unhandled s"
  "unhandled (instantiated m x s) = unhandled s"
  "unhandled (loaded_once i s) = unhandled s"
  "instances (loaded_once i s) = (instances s)(i \<mapsto> PluginInstance (''/plugins/'' @ i @ ''/server''))"
  by (simp_all add: claim_def resolved_def glob_started_def instantiated_def loaded_once_def)

lemma wf_heapD:
  "wf_heap h \<Longrightarrow> a < length h \<Longrightarrow> fv \<in> set (h ! a) \<Longrightarrow> valid_val (length h) (snd fv)"
  by (auto simp: wf_heap_def list_all_iff)

lemma shift_simps [simp]:
  "shift n (VRef a) = VRef (a + n)"
  "shift n VUndefined = VUndefined"
  "shift n VNull = VNull"
  "shift n (VBool b) = VBool b"
  "shift n (VNum i) = VNum i"
  "shift n (VStr x) = VStr x"
  by (simp_all add: shift_def)

lemma cloneDeep_length: "length (fst (cloneDeep h v)) = 2 * length h"
  by (simp add: cloneDeep_def)

lemma cloneDeep_nth:
  "a < length h \<Longrightarrow>
     fst (cloneDeep h v) ! (a + length h) = map (\<lambda>fv. (fst fv, shift (length h) (snd fv))) (h ! a)"
  by (simp add: cloneDeep_def nth_append)

lemma in_region_shift:
  "valid_val n v \<Longrightarrow> in_region n (2 * n) (shift n v)"
  by (cases v) (simp_all add: valid_val_def in_region_def)

lemma cloneDeep_closed:
  assumes "wf_heap h"
  shows "closed_region (length h) (2 * length h) (fst (cloneDeep h v))"
  unfolding closed_region_def
proof (intro allI impI ballI)
  fix a fv
  assume a: "length h \<le> a \<and> a < 2 * length h"
    and fv: "fv \<in> set (fst (cloneDeep h v) ! a)"
  let ?b = "a - length h"
  from a have b: "?b < length h" "a = ?b + length h" by auto
  from cloneDeep_nth[OF b(1), of v] b(2)
  have "fst (cloneDeep h v) ! a = map (\<lambda>fv. (fst fv, shift (length h) (snd fv))) (h ! ?b)" by simp
  with fv obtain gw where gw: "gw \<in> set (h ! ?b)" "fv = (fst gw, shift (length h) (snd gw))" by auto
  from wf_heapD[OF assms b(1) gw(1)] have "valid_val (length h) (snd gw)" .
  then show "in_region (length h) (2 * length h) (snd fv)"
    unfolding gw(2) by (simp add: in_region_shift)
qed

text \<open>The clone shows what the original showed.\<close>

lemma unfold_cloneDeep:
  assumes wf: "wf_heap h"
  shows "valid_val (length h) v \<Longrightarrow> unfold n (fst (cloneDeep h w)) (shift (length h) v) = unfold n h v"
proof (induction n arbitrary: v)
  case 0
  then show ?case by (cases v) simp_all
next
  case (Suc n)
  show ?case
  proof (cases v)
    case (VRef a)
    with Suc.prems have a: "a < length h" by (simp add: valid_val_def)
    have fields: "unfold n (fst (cloneDeep h w)) (shift (length h) (snd fv)) = unfold n h (snd fv)"
      if "fv \<in> set (h ! a)" for fv
      by (rule Suc.IH) (rule wf_heapD[OF wf a that])
    have "map (\<lambda>fv. (fst fv, unfold n (fst (cloneDeep h w)) (snd fv))) (fst (cloneDeep h w) ! (a + length h))
            = map (\<lambda>fv. (fst fv, unfold n h (snd fv))) (h ! a)"
      unfolding cloneDeep_nth[OF a] by (simp add: fields)
    with a VRef show ?thesis by (simp add: cloneDeep_length)
  qed simp_all
qed

text \<open>What is seen through a value that points into a closed region depends on the
  objects of that region only.\<close>

lemma unfold_same_region:
  assumes same: "same_region lo hi h1 h2" and closed: "closed_region lo hi h2"
  shows "in_region lo hi v \<Longrightarrow> unfold n h1 v = unfold n h2 v"
proof (induction n arbitrary: v)
  case 0
  then show ?case by (cases v) simp_all
next
  case (Suc n)
  show ?case
  proof (cases v)
    case (VRef a)
    with Suc.prems have a: "lo \<le> a" "a < hi" by (simp_all add: in_region_def)
    with same have len: "a < length h1" "a < length h2" and eq: "h1 ! a = h2 ! a"
      by (auto simp: same_region_def)
    have fields: "unfold n h1 (snd fv) = unfold n h2 (snd fv)" if "fv \<in> set (h2 ! a)" for fv
    proof (rule Suc.IH)
      from closed a that show "in_region lo hi (snd fv)" by (auto simp: closed_region_def)
    qed
    have "map (\<lambda>fv. (fst fv, unfold n h1 (snd fv))) (h1 ! a)
            = map (\<lambda>fv. (fst fv, unfold n h2 (snd fv))) (h2 ! a)"
      unfolding eq by (simp add: fields)
    with len VRef show ?thesis by simp
  qed simp_all
qed

lemma get_prop_same_region:
  assumes "same_region lo hi h1 h2" and "in_region lo hi v"
  shows "get_prop h1 v f = get_prop h2 v f"
proof (cases v)
  case (VRef a)
  with assms(2) have "lo \<le> a" "a < hi" by (simp_all add: in_region_def)
  with assms(1) have "a < length h1" "a < length h2" "h1 ! a = h2 ! a"
    by (auto simp: same_region_def)
  with VRef show ?thesis by (simp add: get_prop_def)
qed (simp_all add: get_prop_def)

lemma mutate_same_region:
  assumes "\<not> writes_into lo hi m" and "hi \<le> length h"
  shows "same_region lo hi (mutate m h) h"
proof (cases m)
  case (SetProp a f v)
  with assms show ?thesis by (auto simp: same_region_def)
next
  case (DeleteProp a f)
  with assms show ?thesis by (auto simp: same_region_def)
next
  case (NewObject obj)
  with assms show ?thesis by (auto simp: same_region_def nth_append)
qed

lemma same_region_trans:
  "same_region lo hi h1 h2 \<Longrightarrow> same_region lo hi h2 h3 \<Longrightarrow> same_region lo hi h1 h3"
  by (auto simp: same_region_def)

lemma mutate_all_Cons: "mutate_all (m # ms) h = mutate_all ms (mutate m h)"
  by (simp add: mutate_all_def)

lemma mutate_all_same_region:
  "\<forall>m\<in>set ms. \<not> writes_into lo hi m \<Longrightarrow> hi \<le> length h \<Longrightarrow> same_region lo hi (mutate_all ms h) h"
proof (induction ms arbitrary: h)
  case Nil
  then show ?case by (simp add: mutate_all_def same_region_def)
next
  case (Cons m ms)
  from Cons.prems have one: "same_region lo hi (mutate m h) h"
    by (intro mutate_same_region) simp_all
  then have "hi \<le> length (mutate m h)" by (simp add: same_region_def)
  with Cons.prems have "same_region lo hi (mutate_all ms (mutate m h)) (mutate m h)"
    by (intro Cons.IH) simp_all
  from same_region_trans[OF this one] show ?case by (simp add: mutate_all_Cons)
qed

lemma helper_state_config_ref [simp]:
  "config_ref (claim i s) = config_ref s"
  "config_ref (resolved i s) = config_ref s"
  "config_ref (glob_started m s) = config_ref s"
  "config_ref (instantiated m x s) = config_ref s"
  by (simp_all add: claim_def resolved_def glob_started_def instantiated_def)

lemma for_of_config_ref:
  assumes "\<And>d s r s'. load d s = Some (r, s') \<Longrightarrow> config_ref s' = config_ref s"
  shows "for_of_dependencies load ds s = Some (r, s') \<Longrightarrow> config_ref s' = config_ref s"
proof (induction ds arbitrary: s)
  case Nil
  then show ?case by simp
next
  case (Cons d ds)
  show ?case
  proof (cases "plugin_id d \<in> set (pluginsLoaded s)")
    case True
    with Cons.prems have "for_of_dependencies load ds s = Some (r, s')" by simp
    then show ?thesis by (rule Cons.IH)
  next
    case False
    with Cons.prems obtain r1 s1 where l: "load d s = Some (r1, s1)"
      by (auto split: option.splits)
    have c1: "config_ref s1 = config_ref s" using l by (rule assms)
    show ?thesis
    proof (cases r1)
      case (Inl e)
      with Cons.prems False l c1 show ?thesis by simp
    next
      case (Inr u)
      with Cons.prems False l have "for_of_dependencies load ds s1 = Some (r, s')" by simp
      then have "config_ref s' = config_ref s1" by (rule Cons.IH)
      with c1 show ?thesis by simp
    qed
  qed
qed

lemma loadPlugin_config_ref:
  "loadPlugin E cfg n p s = Some (r, s') \<Longrightarrow> config_ref s' = config_ref s"
proof (induction n arbitrary: p s r s')
  case 0
  then show ?case by simp
next
  case (Suc n)
  have deps: "config_ref s3 = config_ref s"
    if "loadDependencies E cfg n m (resolved (plugin_id p) s) = Some (rd, s3)" for m rd s3
    using that
  proof (cases rule: loadDependencies_cases)
    case undefined
    then show ?thesis by simp
  next
    case (iterated deps)
    have "config_ref s3 = config_ref (resolved (plugin_id p) s)"
      by (rule for_of_config_ref[of "loadPlugin E cfg n", OF _ iterated(2)]) (rule Suc.IH)
    then show ?thesis by simp
  qed
  from Suc.prems show ?case
  proof (cases rule: loadPlugin_Suc_cases)
    case (manifest_failed err)
    then show ?thesis by simp
  next
    case (dependencies_failed m e)
    then show ?thesis by (simp add: deps)
  next
    case (instantiate_failed m s3 err)
    with deps[OF instantiate_failed(2)] show ?thesis by simp
  next
    case (routes_failed m s3 i err)
    with deps[OF routes_failed(2)] show ?thesis by simp
  next
    case (loaded m s3 i)
    with deps[OF loaded(2)] show ?thesis by simp
  qed
qed

lemma loadPlugin_returns:
  assumes fin: "finite (resolvable E cfg)"
  shows "\<exists>n r s'. \<forall>k. loadPlugin E cfg (n + k) p s = Some (r, s')"
proof -
  let ?n = "card (resolvable E cfg - set (pluginsLoaded s)) + 2"
  have "loadPlugin E cfg ?n p s \<noteq> None" by (rule loadPlugin_total[OF fin])
  then obtain x where x: "loadPlugin E cfg ?n p s = Some x" by blast
  obtain r s' where xs: "x = (r, s')" by (cases x)
  have run: "loadPlugin E cfg ?n p s = Some (r, s')" using x unfolding xs .
  have "loadPlugin E cfg (?n + k) p s = Some (r, s')" for k
    using run by (rule loadPlugin_mono) simp
  then show ?thesis by blast
qed

lemma loadPlugin_Suc_trace:
  assumes "loadPlugin E cfg (Suc n) p s = Some (r, s')"
  obtains
    (manifest_failed) err where
      "import_manifest E (manifest_path cfg (plugin_id p)) = Inl err"
      "r = Inl (FrameworkError MANIFEST_NOT_FOUND err)"
      "added s s' = [Claimed (plugin_id p), ManifestFailed (plugin_id p)]"
  | (dependencies_failed) m e where
      "import_manifest E (manifest_path cfg (plugin_id p)) = Inr m"
      "loadDependencies E cfg n m (resolved (plugin_id p) s) = Some (Inl e, s')"
      "r = Inl e"
      "added s s' = [Claimed (plugin_id p), ManifestResolved (plugin_id p)]
                      @ added (resolved (plugin_id p) s) s'"
  | (steps) m s3 where
      "import_manifest E (manifest_path cfg (plugin_id p)) = Inr m"
      "loadDependencies E cfg n m (resolved (plugin_id p) s) = Some (Inr (), s3)"
      "steps_5_to_7 E cfg m s3 = (r, s')"
      "added s s' = [Claimed (plugin_id p), ManifestResolved (plugin_id p)]
                      @ added (resolved (plugin_id p) s) s3 @ steps_5_to_7_events E cfg m"
proof (cases "import_manifest E (manifest_path cfg (plugin_id p))")
  case (Inl err)
  with assms have r: "r = Inl (FrameworkError MANIFEST_NOT_FOUND err)"
    and s': "s' = log (ManifestFailed (plugin_id p)) (claim (plugin_id p) s)"
    by (simp_all add: loadPlugin_Suc_steps)
  have "events s' = events s @ [Claimed (plugin_id p), ManifestFailed (plugin_id p)]"
    unfolding s' by simp
  then have "added s s' = [Claimed (plugin_id p), ManifestFailed (plugin_id p)]"
    by (rule added_append)
  with Inl r show ?thesis by (rule manifest_failed)
next
  case m: (Inr m)
  let ?i = "plugin_id p"
  let ?R = "resolved ?i s"
  show ?thesis
  proof (cases "loadDependencies E cfg n m ?R")
    case None
    with assms m show ?thesis by (simp add: loadPlugin_Suc_steps)
  next
    case (Some a)
    obtain rd s3 where a: "a = (rd, s3)" by (cases a)
    have d: "loadDependencies E cfg n m ?R = Some (rd, s3)" using Some unfolding a .
    have e3: "extends ?R s3"
      by (rule loadDependencies_extends[OF loadPlugin_extending d])
    then have ev3: "events s3 = events s @ [Claimed ?i, ManifestResolved ?i] @ added ?R s3"
      by (simp add: extends_def)
    show ?thesis
    proof (cases rd)
      case (Inl e)
      with assms m d have r: "r = Inl e" and s': "s' = s3"
        by (simp_all add: loadPlugin_Suc_steps)
      have "events s' = events s @ ([Claimed ?i, ManifestResolved ?i] @ added ?R s')"
        using ev3 unfolding s' by simp
      then have t: "added s s' = [Claimed ?i, ManifestResolved ?i] @ added ?R s'"
        by (rule added_append)
      have d': "loadDependencies E cfg n m ?R = Some (Inl e, s')"
        using d Inl unfolding s' by simp
      from m d' r t show ?thesis by (rule dependencies_failed)
    next
      case (Inr u)
      with d have d': "loadDependencies E cfg n m ?R = Some (Inr (), s3)" by simp
      with assms m have st: "steps_5_to_7 E cfg m s3 = (r, s')"
        by (simp add: loadPlugin_Suc_steps)
      have "events s' = events s @ ([Claimed ?i, ManifestResolved ?i] @ added ?R s3
               @ steps_5_to_7_events E cfg m)"
        using steps_5_to_7_state(1)[OF st] ev3 by simp
      then have t: "added s s' = [Claimed ?i, ManifestResolved ?i] @ added ?R s3
               @ steps_5_to_7_events E cfg m"
        by (rule added_append)
      from m d' st t show ?thesis by (rule steps)
    qed
  qed
qed

lemma loadPlugin_starts_with_claim:
  assumes "loadPlugin E cfg n p s = Some (r, s')"
  shows "\<exists>body. added s s' = Claimed (plugin_id p) # body"
proof (cases n)
  case 0
  with assms show ?thesis by simp
next
  case (Suc k)
  from assms[unfolded Suc] show ?thesis
    by (cases rule: loadPlugin_Suc_trace) simp_all
qed

lemma perform_prefix:
  assumes "perform E cfg operation s = Some s'"
  shows "\<exists>more. pluginsLoaded s' = pluginsLoaded s @ more"
proof (cases operation)
  case (LoadPlugin n p)
  with assms obtain r where "loadPlugin E cfg n p s = Some (r, s')" by auto
  then have "extends s s'" by (rule extendingD[OF loadPlugin_extending])
  then show ?thesis unfolding extends_def by blast
next
  case RunPending
  with assms show ?thesis by auto
qed

lemma perform_all_prefix:
  "perform_all E cfg ops s = Some s' \<Longrightarrow> \<exists>more. pluginsLoaded s' = pluginsLoaded s @ more"
proof (induction ops arbitrary: s)
  case Nil
  then show ?case by simp
next
  case (Cons operation ops)
  from Cons.prems obtain s1 where p: "perform E cfg operation s = Some s1"
    and rest: "perform_all E cfg ops s1 = Some s'"
    by (auto split: option.splits)
  from perform_prefix[OF p] obtain m1 where m1: "pluginsLoaded s1 = pluginsLoaded s @ m1" by blast
  from Cons.IH[OF rest] obtain m2 where m2: "pluginsLoaded s' = pluginsLoaded s1 @ m2" by blast
  from m1 m2 have "pluginsLoaded s' = pluginsLoaded s @ (m1 @ m2)" by simp
  then show ?case by blast
qed

lemma dependency_turn_step:
  assumes "for_of_dependencies (loadPlugin E cfg k) (d # ds) t = Some (r, t')"
  shows "\<exists>r1 t1. dependency_turn E cfg d t r1 t1 (added t t1) \<and> extends t t1
           \<and> (if r1 = Inr () then for_of_dependencies (loadPlugin E cfg k) ds t1 = Some (r, t')
              else r = r1 \<and> t' = t1)"
proof (cases "plugin_id d \<in> set (pluginsLoaded t)")
  case True
  have "dependency_turn E cfg d t (Inr ()) t (added t t)"
    using True by (simp add: dependency_turn_def added_def)
  moreover have "for_of_dependencies (loadPlugin E cfg k) ds t = Some (r, t')"
    using assms True by simp
  ultimately show ?thesis using extends_refl[of t] by (intro exI[of _ "Inr ()"] exI[of _ t]) simp
next
  case False
  with assms obtain r1 t1 where l: "loadPlugin E cfg k d t = Some (r1, t1)"
    by (auto split: option.splits)
  have e: "extends t t1" by (rule extendingD[OF loadPlugin_extending l])
  then have ev: "events t1 = events t @ added t t1" by (simp add: extends_def)
  have c: "r1 = Inr () \<longrightarrow> complete_load E cfg (plugin_id d) (added t t1)"
    using l by (auto intro: loadPlugin_complete_load)
  have turn: "dependency_turn E cfg d t r1 t1 (added t t1)"
    unfolding dependency_turn_def using False l ev c loadPlugin_starts_with_claim[OF l] by auto
  have "if r1 = Inr () then for_of_dependencies (loadPlugin E cfg k) ds t1 = Some (r, t')
        else r = r1 \<and> t' = t1"
  proof (cases r1)
    case (Inl e)
    with assms False l show ?thesis by auto
  next
    case (Inr u)
    with assms False l show ?thesis by auto
  qed
  with turn e show ?thesis by blast
qed

lemma two_dependencies:
  assumes "for_of_dependencies (loadPlugin E cfg k) [d1, d2] R = Some (rd, s3)"
  shows "\<exists>r1 s1. dependency_turn E cfg d1 R r1 s1 (added R s1)
           \<and> (if r1 = Inr () then dependency_turn E cfg d2 s1 rd s3 (added s1 s3)
              else added s1 s3 = [] \<and> rd = r1 \<and> s3 = s1)
           \<and> extends R s1 \<and> extends s1 s3"
proof -
  from dependency_turn_step[OF assms] obtain r1 s1 where
    t1: "dependency_turn E cfg d1 R r1 s1 (added R s1)" and e1: "extends R s1"
    and n1: "if r1 = Inr () then for_of_dependencies (loadPlugin E cfg k) [d2] s1 = Some (rd, s3)
             else rd = r1 \<and> s3 = s1"
    by blast
  show ?thesis
  proof (cases "r1 = Inr ()")
    case False
    with n1 have "rd = r1" "s3 = s1" by simp_all
    with t1 e1 False show ?thesis
      by (intro exI[of _ r1] exI[of _ s1]) (simp add: added_def extends_refl)
  next
    case True
    with n1 have l2: "for_of_dependencies (loadPlugin E cfg k) [d2] s1 = Some (rd, s3)" by simp
    from dependency_turn_step[OF l2] obtain r2 s2 where
      t2: "dependency_turn E cfg d2 s1 r2 s2 (added s1 s2)" and e2: "extends s1 s2"
      and n2: "if r2 = Inr () then for_of_dependencies (loadPlugin E cfg k) [] s2 = Some (rd, s3)
               else rd = r2 \<and> s3 = s2"
      by blast
    have "rd = r2 \<and> s3 = s2" using n2 by (cases "r2 = Inr ()") simp_all
    with t1 e1 t2 e2 True show ?thesis
      by (intro exI[of _ r1] exI[of _ s1]) simp
  qed
qed


lemma loadPlugin_deterministic:
  assumes "loadPlugin E cfg n p s = Some x" and "loadPlugin E cfg k p s = Some y"
  shows "x = y"
proof -
  have "loadPlugin E cfg (max n k) p s = Some x" using assms(1) by (rule loadPlugin_mono) simp
  moreover have "loadPlugin E cfg (max n k) p s = Some y" using assms(2) by (rule loadPlugin_mono) simp
  ultimately show ?thesis by simp
qed

lemma dependency_turn_loaded:
  assumes turn: "dependency_turn E cfg d t r t' T"
    and new: "plugin_id d \<notin> set (pluginsLoaded t)"
    and run: "loadPlugin E cfg n d t = Some (r0, t0)"
  shows "r = r0" and "t' = t0" and "events t0 = events t @ T"
    and "r0 = Inr () \<Longrightarrow> complete_load E cfg (plugin_id d) T"
proof -
  from turn new obtain k where k: "loadPlugin E cfg k d t = Some (r, t')"
    and ev: "events t' = events t @ T"
    and c: "r = Inr () \<longrightarrow> complete_load E cfg (plugin_id d) T"
    unfolding dependency_turn_def by auto
  from loadPlugin_deterministic[OF k run] show eq: "r = r0" "t' = t0" by simp_all
  from ev eq show "events t0 = events t @ T" by simp
  from c eq show "complete_load E cfg (plugin_id d) T" if "r0 = Inr ()" using that by simp
qed

section \<open>The claim on the loaded set is never taken back\<close>

text \<open>
  C8. No operation of the loader takes an id out of the loaded set. For every call of
  \<^verbatim>\<open>loadPlugin\<close> that returns, fulfilled or rejected at whatever step and for
  whatever plugin of the chain: the loaded set after the call is the loaded set before
  it followed by every id claimed during the call, in the order of the claims; the
  requested id is the first of them, and the dependencies whose own load was rejected
  are among them. So every id that was in the loaded set, and every id that was claimed,
  is in the loaded set after the call; and after any sequence of later operations
  (further calls of \<^verbatim>\<open>loadPlugin\<close>, a retry included, and runs of the pending
  \<^verbatim>\<open>glob\<close> callbacks, in which a schema activation fails) the loaded set still begins
  with the loaded set as the call left it. The callbacks leave the loaded set as it is.
  The call returns when finitely many plugins have a manifest.
\<close>

theorem C8_claim_is_never_removed:
  "(\<forall>n r s'. loadPlugin E cfg n plugin s = Some (r, s') \<longrightarrow>
        events s' = events s @ added s s'
      \<and> pluginsLoaded s' = pluginsLoaded s @ claims_in (added s s')
      \<and> (\<exists>evs. added s s' = Claimed (plugin_id plugin) # evs)
      \<and> (\<forall>i. i \<in> set (pluginsLoaded s) \<or> Claimed i \<in> set (added s s') \<longrightarrow> i \<in> set (pluginsLoaded s'))
      \<and> (\<forall>ops s''. perform_all E cfg ops s' = Some s'' \<longrightarrow>
            (\<exists>more. pluginsLoaded s'' = pluginsLoaded s' @ more)))
   \<and> pluginsLoaded (run_pending E cfg s) = pluginsLoaded s
   \<and> (finite (resolvable E cfg) \<longrightarrow>
        (\<exists>n r s'. \<forall>k. loadPlugin E cfg (n + k) plugin s = Some (r, s')))"
proof (intro conjI allI impI)
  fix n r s'
  assume run: "loadPlugin E cfg n plugin s = Some (r, s')"
  have e: "extends s s'" using run by (rule extendingD[OF loadPlugin_extending])
  from e show ev: "events s' = events s @ added s s'" by (simp add: extends_def)
  from e show pl: "pluginsLoaded s' = pluginsLoaded s @ claims_in (added s s')"
    by (simp add: extends_def)
  show "\<exists>evs. added s s' = Claimed (plugin_id plugin) # evs"
    using run by (rule loadPlugin_starts_with_claim)
  show "i \<in> set (pluginsLoaded s')"
    if "i \<in> set (pluginsLoaded s) \<or> Claimed i \<in> set (added s s')" for i
    using that unfolding pl by (auto simp: set_claims_in)
  show "\<exists>more. pluginsLoaded s'' = pluginsLoaded s' @ more"
    if "perform_all E cfg ops s' = Some s''" for ops s''
    using that by (rule perform_all_prefix)
next
  show "pluginsLoaded (run_pending E cfg s) = pluginsLoaded s" by simp
next
  assume "finite (resolvable E cfg)"
  then show "\<exists>n r s'. \<forall>k. loadPlugin E cfg (n + k) plugin s = Some (r, s')"
    by (rule loadPlugin_returns)
qed

theorem C8_claim_is_never_removed_witness:
  "loadPlugin missing_dependency_env plugins_cfg 2 (plugin_ref ''P'') (initial_state VUndefined)
     = Some (Inl (FrameworkError MANIFEST_NOT_FOUND ''Cannot find module /plugins/D2/manifest''),
             log (ManifestFailed ''D2'')
               (claim ''D2'' (loaded_once ''D1'' (resolved ''P'' (initial_state VUndefined)))))
   \<and> pluginsLoaded (log (ManifestFailed ''D2'')
               (claim ''D2'' (loaded_once ''D1'' (resolved ''P'' (initial_state VUndefined)))))
       = [''P'', ''D1'', ''D2'']
   \<and> claims_in (added (initial_state VUndefined) (log (ManifestFailed ''D2'')
               (claim ''D2'' (loaded_once ''D1'' (resolved ''P'' (initial_state VUndefined))))))
       = [''P'', ''D1'', ''D2'']
   \<and> (\<exists>s''. perform_all missing_dependency_env plugins_cfg
                [RunPending, LoadPlugin 2 (plugin_ref ''P''), RunPending]
                (log (ManifestFailed ''D2'')
                   (claim ''D2'' (loaded_once ''D1'' (resolved ''P'' (initial_state VUndefined)))))
              = Some s''
          \<and> pluginsLoaded s'' = [''P'', ''D1'', ''D2'', ''P'', ''D3''])
   \<and> loadPlugin failing_schema_env plugins_cfg 1 (plugin_ref ''X'') (initial_state VUndefined)
       = Some (Inr (), loaded_once ''X'' (initial_state VUndefined))
   \<and> unhandled (run_pending failing_schema_env plugins_cfg (loaded_once ''X'' (initial_state VUndefined)))
       = [FrameworkError SCHEMA_LOADER_FAILED ''schema activation failed'']
   \<and> pluginsLoaded (run_pending failing_schema_env plugins_cfg (loaded_once ''X'' (initial_state VUndefined)))
       = [''X'']"
proof -
  let ?E = missing_dependency_env
  let ?s0 = "initial_state VUndefined"
  let ?s1 = "loaded_once ''D1'' (resolved ''P'' ?s0)"
  let ?s' = "log (ManifestFailed ''D2'') (claim ''D2'' ?s1)"
  let ?mP = "manifest_of ''P'' [''D1'', ''D2'', ''D3'']"
  have d1: "loadPlugin ?E plugins_cfg 1 (plugin_ref ''D1'') s = Some (Inr (), loaded_once ''D1'' s)"
    and d3: "loadPlugin ?E plugins_cfg 1 (plugin_ref ''D3'') s = Some (Inr (), loaded_once ''D3'' s)"
    for s
    by (simp_all add: missing_dependency_env_def loaded_once_def plugin_ref_def manifest_of_def
          repository_def plugins_cfg_def loadPlugin_Suc loadDependencies_def loadDependencies_with_def
          manifest_path_def server_path_def routes_path_def)
  have d2: "loadPlugin ?E plugins_cfg 1 (plugin_ref ''D2'') s
              = Some (Inl (FrameworkError MANIFEST_NOT_FOUND ''Cannot find module /plugins/D2/manifest''),
                      log (ManifestFailed ''D2'') (claim ''D2'' s))" for s
    by (simp add: missing_dependency_env_def plugin_ref_def manifest_of_def
          repository_def plugins_cfg_def loadPlugin_Suc manifest_path_def)
  have mp: "import_manifest ?E (manifest_path plugins_cfg ''P'') = Inr ?mP"
    by (simp add: missing_dependency_env_def repository_def manifest_path_def plugins_cfg_def)
  have l0: "pluginsLoaded (resolved ''P'' ?s0) = [''P'']" by (simp add: initial_state_def)
  have l1: "pluginsLoaded ?s1 = [''P'', ''D1'']" by (simp add: loaded_once_def initial_state_def)
  have l': "pluginsLoaded ?s' = [''P'', ''D1'', ''D2'']" by (simp add: initial_state_def)
  have run: "loadPlugin ?E plugins_cfg 2 (plugin_ref ''P'') ?s0
     = Some (Inl (FrameworkError MANIFEST_NOT_FOUND ''Cannot find module /plugins/D2/manifest''), ?s')"
    unfolding numeral_2_eq_2 loadPlugin_Suc[of _ _ "Suc 0"]
    using mp d1 d2 l0 l1
    by (simp add: plugin_ref_def manifest_of_def loadDependencies_def loadDependencies_with_def)
  let ?t = "run_pending ?E plugins_cfg ?s'"
  let ?t' = "log (RoutesRegistered ''P'')
               (instantiated ?mP (PluginInstance ''/plugins/P/server'')
                  (loaded_once ''D3'' (resolved ''P'' ?t)))"
  have lt: "pluginsLoaded (resolved ''P'' ?t) = [''P'', ''D1'', ''D2'', ''P'']"
    by (simp add: initial_state_def)
  have retry: "loadPlugin ?E plugins_cfg 2 (plugin_ref ''P'') ?t = Some (Inr (), ?t')"
    unfolding numeral_2_eq_2 loadPlugin_Suc[of _ _ "Suc 0"]
    using mp d3 lt
    by (simp add: loadDependencies_def loadDependencies_with_def missing_dependency_env_def
          server_path_def plugins_cfg_def routes_path_def)
  have all: "perform_all ?E plugins_cfg [RunPending, LoadPlugin 2 (plugin_ref ''P''), RunPending] ?s'
               = Some (run_pending ?E plugins_cfg ?t')"
    using retry by simp
  from C8_claim_is_never_removed[of ?E plugins_cfg "plugin_ref ''P''" ?s0] run
  have kept: "pluginsLoaded ?s' = pluginsLoaded ?s0 @ claims_in (added ?s0 ?s')"
    and later: "\<exists>more. pluginsLoaded (run_pending ?E plugins_cfg ?t') = pluginsLoaded ?s' @ more"
    using all by blast+
  from kept l' have c: "claims_in (added ?s0 ?s') = [''P'', ''D1'', ''D2'']"
    by (simp add: initial_state_def)
  have "pluginsLoaded (run_pending ?E plugins_cfg ?t') = [''P'', ''D1'', ''D2'', ''P'', ''D3'']"
    by (simp add: initial_state_def)
  with all have ex: "\<exists>s''. perform_all ?E plugins_cfg [RunPending, LoadPlugin 2 (plugin_ref ''P''), RunPending] ?s'
              = Some s'' \<and> pluginsLoaded s'' = [''P'', ''D1'', ''D2'', ''P'', ''D3'']"
    using later by blast
  let ?x = "loaded_once ''X'' ?s0"
  have mx: "import_manifest (repository [(''X'', manifest_of ''X'' [])]) (manifest_path plugins_cfg ''X'')
             = Inr (manifest_of ''X'' [])"
    by (simp add: repository_def manifest_path_def plugins_cfg_def)
  have runx: "loadPlugin failing_schema_env plugins_cfg 1 (plugin_ref ''X'') ?s0 = Some (Inr (), ?x)"
    unfolding failing_schema_env_def loadPlugin_ignores_schema One_nat_def
    using mx by (rule repository_leaf)
  have px: "pending ?x = [manifest_of ''X'' []]" "unhandled ?x = []" "pluginsLoaded ?x = [''X'']"
    by (simp_all add: initial_state_def)
  have ux: "unhandled (run_pending failing_schema_env plugins_cfg ?x)
       = [FrameworkError SCHEMA_LOADER_FAILED ''schema activation failed'']"
    using px
    by (simp add: run_pending_def glob_callback_def schema_file_def failing_schema_env_def
          plugins_cfg_def)
  have "perform_all failing_schema_env plugins_cfg [RunPending] ?x
          = Some (run_pending failing_schema_env plugins_cfg ?x)" by simp
  with C8_claim_is_never_removed[of failing_schema_env plugins_cfg "plugin_ref ''X''" ?s0] runx
  have "\<exists>more. pluginsLoaded (run_pending failing_schema_env plugins_cfg ?x) = pluginsLoaded ?x @ more"
    by blast
  then have lx: "pluginsLoaded (run_pending failing_schema_env plugins_cfg ?x) = [''X'']"
    using px(3) by simp
  from run l' c ex runx ux lx show ?thesis by simp
qed

section \<open>The guard on the dependencies\<close>

text \<open>
  C10. The guard \<^verbatim>\<open>typeof(manifest.server.dependencies) !== undefined\<close> holds for every
  manifest, so \<^verbatim>\<open>loadDependencies\<close> is always called. For a manifest without
  \<^verbatim>\<open>dependencies\<close>, \<^verbatim>\<open>loadPlugin\<close> is rejected with the \<^verbatim>\<open>TypeError\<close> of the
  iteration, not wrapped in a \<^verbatim>\<open>FrameworkError\<close>, after the claim and the manifest
  resolution and before any other step.
\<close>

theorem C10_guard_is_always_true:
  assumes "import_manifest E (manifest_path cfg (plugin_id plugin)) = Inr manifest"
    and "dependencies (server manifest) = None"
  shows "(\<forall>m. dependencies_guard m)
       \<and> loadPlugin E cfg (Suc n) plugin s = Some (Inl TypeError, resolved (plugin_id plugin) s)"
  using assms by (simp add: loadPlugin_Suc loadDependencies_def loadDependencies_with_def)

theorem C10_guard_is_always_true_witness:
  "import_manifest no_dependencies_env (manifest_path plugins_cfg ''A'')
     = Inr \<lparr>manifest_id = ''A'', server = \<lparr>dependencies = None\<rparr>\<rparr>
   \<and> loadPlugin no_dependencies_env plugins_cfg 1 (plugin_ref ''A'') (initial_state VUndefined)
       = Some (Inl TypeError, resolved ''A'' (initial_state VUndefined))"
proof -
  have m: "import_manifest no_dependencies_env (manifest_path plugins_cfg (plugin_id (plugin_ref ''A'')))
     = Inr \<lparr>manifest_id = ''A'', server = \<lparr>dependencies = None\<rparr>\<rparr>"
    by (simp add: no_dependencies_env_def repository_def manifest_path_def plugins_cfg_def plugin_ref_def)
  have d: "dependencies (server \<lparr>manifest_id = ''A'', server = \<lparr>dependencies = None\<rparr>\<rparr>) = None"
    by simp
  from C10_guard_is_always_true[OF m d, of 0 "initial_state VUndefined"] m
  show ?thesis by (simp add: plugin_ref_def)
qed

section \<open>Loading a plugin of a dependency cycle\<close>

text \<open>
  C1, as amended. The claim as stated fails when the load is rejected before B is
  reached (A depends on a plugin, listed before B, whose constructor throws): then B is
  never claimed. What holds: when finitely many plugins have a manifest and A depends on B
  (in particular when B depends back on A), \<^verbatim>\<open>loadPlugin(A)\<close> returns for every
  recursion bound from some bound on, always with the same result; the call appends to
  the loaded set only, A exactly once and no id twice; and when the call succeeds, or
  when B is the first dependency of A, B is in the loaded set afterwards, claimed exactly
  once during the call unless it was in the loaded set before.
\<close>

theorem C1_load_terminates_on_cycles:
  assumes fin: "finite (resolvable E cfg)"
    and ma: "import_manifest E (manifest_path cfg a) = Inr ma"
    and da: "dependencies (server ma) = Some da"
    and ab: "b \<in> set (map plugin_id da)"
  shows "\<exists>n r s' new.
           (\<forall>k. loadPlugin E cfg (n + k) (plugin_ref a) s = Some (r, s'))
         \<and> pluginsLoaded s' = pluginsLoaded s @ new
         \<and> count_list new a = 1
         \<and> (\<forall>i. count_list new i \<le> 1)
         \<and> (r = Inr () \<or> plugin_id (hd da) = b \<longrightarrow>
              b \<in> set (pluginsLoaded s') \<and> (b \<notin> set (pluginsLoaded s) \<longrightarrow> count_list new b = 1))"
proof -
  let ?c = "card (resolvable E cfg - set (pluginsLoaded s))"
  let ?p = "plugin_ref a"
  have pid: "plugin_id ?p = a" by (simp add: plugin_ref_def)
  have "loadPlugin E cfg (?c + 2) ?p s \<noteq> None" by (rule loadPlugin_total[OF fin])
  moreover have "?c + 2 = Suc (Suc ?c)" by (rule add_2_eq_Suc')
  ultimately have "loadPlugin E cfg (Suc (Suc ?c)) ?p s \<noteq> None" by metis
  then obtain x where x: "loadPlugin E cfg (Suc (Suc ?c)) ?p s = Some x" by blast
  obtain r s' where xs: "x = (r, s')" by (cases x)
  have run: "loadPlugin E cfg (Suc (Suc ?c)) ?p s = Some (r, s')" using x unfolding xs .
  then have all: "loadPlugin E cfg (Suc (Suc ?c) + k) ?p s = Some (r, s')" for k
    by (rule loadPlugin_mono) simp
  from loadPlugin_claims[OF run] pid obtain new where
    new: "pluginsLoaded s' = pluginsLoaded s @ a # new" "distinct (a # new)"
      "set new \<inter> set (pluginsLoaded s) = {}" by auto
  have once: "count_list (a # new) i \<le> 1" for i
    using count_list_distinct[OF new(2), of i] by simp
  have a1: "count_list (a # new) a = 1"
    using count_list_distinct[OF new(2), of a] by simp
  from loadPlugin_Suc_dependencies[OF run] ma pid obtain rd s3 where
    deps: "loadDependencies E cfg (Suc ?c) ma (resolved a s) = Some (rd, s3)"
    and same: "pluginsLoaded s' = pluginsLoaded s3" and ok: "r = Inr () \<longrightarrow> rd = Inr ()"
    by auto
  from deps da have loop: "for_of_dependencies (loadPlugin E cfg (Suc ?c)) da (resolved a s) = Some (rd, s3)"
    by (simp add: loadDependencies_def loadDependencies_with_def)
  have reached: "b \<in> set (pluginsLoaded s')" if "r = Inr () \<or> plugin_id (hd da) = b"
    using that
  proof
    assume "r = Inr ()"
    with ok loop have l: "for_of_dependencies (loadPlugin E cfg (Suc ?c)) da (resolved a s) = Some (Inr (), s3)"
      by simp
    from ab obtain d where d: "d \<in> set da" "plugin_id d = b" by auto
    from for_of_success_loaded[OF loadPlugin_appends_claims l d(1)] d(2) same
    show ?thesis by simp
  next
    assume h: "plugin_id (hd da) = b"
    from ab obtain d ds where "da = d # ds" by (cases da) auto
    with h loop have db: "plugin_id d = b"
      and first: "for_of_dependencies (loadPlugin E cfg (Suc ?c)) (d # ds) (resolved a s) = Some (rd, s3)"
      by simp_all
    have "plugin_id d \<in> set (pluginsLoaded s3)"
      by (rule for_of_first_loaded[OF loadPlugin_appends_claims first])
    with db same show ?thesis by simp
  qed
  have b1: "count_list (a # new) b = 1" if "b \<in> set (pluginsLoaded s')" "b \<notin> set (pluginsLoaded s)"
  proof -
    from that new(1) have "b \<in> set (a # new)" by simp
    with count_list_distinct[OF new(2), of b] show ?thesis by simp
  qed
  have "(\<forall>k. loadPlugin E cfg (Suc (Suc ?c) + k) ?p s = Some (r, s'))
         \<and> pluginsLoaded s' = pluginsLoaded s @ (a # new)
         \<and> count_list (a # new) a = 1
         \<and> (\<forall>i. count_list (a # new) i \<le> 1)
         \<and> (r = Inr () \<or> plugin_id (hd da) = b \<longrightarrow>
              b \<in> set (pluginsLoaded s') \<and> (b \<notin> set (pluginsLoaded s) \<longrightarrow> count_list (a # new) b = 1))"
  proof (intro conjI allI impI)
    show "loadPlugin E cfg (Suc (Suc ?c) + k) ?p s = Some (r, s')" for k by (rule all)
    show "pluginsLoaded s' = pluginsLoaded s @ a # new" by (rule new(1))
    show "count_list (a # new) a = 1" by (rule a1)
    show "count_list (a # new) i \<le> 1" for i by (rule once)
    show "b \<in> set (pluginsLoaded s')" if "r = Inr () \<or> plugin_id (hd da) = b"
      using that by (rule reached)
    show "count_list (a # new) b = 1"
      if "r = Inr () \<or> plugin_id (hd da) = b" "b \<notin> set (pluginsLoaded s)"
      using reached[OF that(1)] that(2) by (rule b1)
  qed
  then show ?thesis by blast
qed

theorem C1_load_terminates_on_cycles_witness:
  "finite (resolvable cycle_env plugins_cfg)
   \<and> import_manifest cycle_env (manifest_path plugins_cfg ''A'') = Inr (manifest_of ''A'' [''B''])
   \<and> import_manifest cycle_env (manifest_path plugins_cfg ''B'') = Inr (manifest_of ''B'' [''A''])
   \<and> (\<exists>n r s' new.
         (\<forall>k. loadPlugin cycle_env plugins_cfg (n + k) (plugin_ref ''A'') (initial_state VUndefined) = Some (r, s'))
       \<and> pluginsLoaded s' = new
       \<and> count_list new ''A'' = 1 \<and> count_list new ''B'' = 1
       \<and> ''B'' \<in> set (pluginsLoaded s'))"
proof -
  have fin: "finite (resolvable cycle_env plugins_cfg)"
    unfolding cycle_env_def by (rule finite_resolvable_repository)
  have ma: "import_manifest cycle_env (manifest_path plugins_cfg ''A'') = Inr (manifest_of ''A'' [''B''])"
    by (simp add: cycle_env_def repository_def manifest_path_def plugins_cfg_def)
  have mb: "import_manifest cycle_env (manifest_path plugins_cfg ''B'') = Inr (manifest_of ''B'' [''A''])"
    by (simp add: cycle_env_def repository_def manifest_path_def plugins_cfg_def)
  have da: "dependencies (server (manifest_of ''A'' [''B''])) = Some [plugin_ref ''B'']"
    by (simp add: manifest_of_def)
  have ab: "''B'' \<in> set (map plugin_id [plugin_ref ''B''])" by (simp add: plugin_ref_def)
  have first: "plugin_id (hd [plugin_ref ''B'']) = ''B''" by (simp add: plugin_ref_def)
  have fresh: "''B'' \<notin> set (pluginsLoaded (initial_state VUndefined))" by (simp add: initial_state_def)
  have nil: "pluginsLoaded (initial_state VUndefined) = []" by (simp add: initial_state_def)
  from C1_load_terminates_on_cycles[OF fin ma da ab, of "initial_state VUndefined"]
  obtain n r s' new where
    run: "\<forall>k. loadPlugin cycle_env plugins_cfg (n + k) (plugin_ref ''A'') (initial_state VUndefined) = Some (r, s')"
    and new: "pluginsLoaded s' = pluginsLoaded (initial_state VUndefined) @ new"
    and a1: "count_list new ''A'' = 1"
    and b: "r = Inr () \<or> plugin_id (hd [plugin_ref ''B'']) = ''B'' \<longrightarrow>
              ''B'' \<in> set (pluginsLoaded s') \<and>
              (''B'' \<notin> set (pluginsLoaded (initial_state VUndefined)) \<longrightarrow> count_list new ''B'' = 1)"
    by blast
  from b first fresh have b1: "''B'' \<in> set (pluginsLoaded s')" "count_list new ''B'' = 1" by blast+
  from new nil have "pluginsLoaded s' = new" by simp
  with run a1 b1 have "\<exists>n r s' new.
         (\<forall>k. loadPlugin cycle_env plugins_cfg (n + k) (plugin_ref ''A'') (initial_state VUndefined) = Some (r, s'))
       \<and> pluginsLoaded s' = new
       \<and> count_list new ''A'' = 1 \<and> count_list new ''B'' = 1
       \<and> ''B'' \<in> set (pluginsLoaded s')" by blast
  with fin ma mb show ?thesis by blast
qed

theorem C1_load_terminates_on_cycles_counterexample:
  "import_manifest broken_cycle_env (manifest_path plugins_cfg ''A'') = Inr (manifest_of ''A'' [''C'', ''B''])
   \<and> import_manifest broken_cycle_env (manifest_path plugins_cfg ''B'') = Inr (manifest_of ''B'' [''A''])
   \<and> import_manifest broken_cycle_env (manifest_path plugins_cfg ''C'') = Inr (manifest_of ''C'' [])
   \<and> loadPlugin broken_cycle_env plugins_cfg 2 (plugin_ref ''A'') (initial_state VUndefined)
       = Some (Inl (FrameworkError PLUGIN_LOAD_FAILED ''the constructor of C threw''),
               log (InstantiateFailed ''C'')
                 (glob_started (manifest_of ''C'' []) (resolved ''C'' (resolved ''A'' (initial_state VUndefined)))))
   \<and> pluginsLoaded (log (InstantiateFailed ''C'')
                 (glob_started (manifest_of ''C'' []) (resolved ''C'' (resolved ''A'' (initial_state VUndefined)))))
       = [''A'', ''C'']
   \<and> ''B'' \<notin> set (pluginsLoaded (log (InstantiateFailed ''C'')
                 (glob_started (manifest_of ''C'' []) (resolved ''C'' (resolved ''A'' (initial_state VUndefined))))))"
proof -
  let ?s0 = "initial_state VUndefined"
  let ?s' = "log (InstantiateFailed ''C'') (glob_started (manifest_of ''C'' []) (resolved ''C'' (resolved ''A'' ?s0)))"
  have ma: "import_manifest broken_cycle_env (manifest_path plugins_cfg ''A'') = Inr (manifest_of ''A'' [''C'', ''B''])"
    and mb: "import_manifest broken_cycle_env (manifest_path plugins_cfg ''B'') = Inr (manifest_of ''B'' [''A''])"
    and mc: "import_manifest broken_cycle_env (manifest_path plugins_cfg ''C'') = Inr (manifest_of ''C'' [])"
    by (simp_all add: broken_cycle_env_def repository_def manifest_path_def plugins_cfg_def)
  have sc: "new_server broken_cycle_env (server_path plugins_cfg (manifest_of ''C'' [])) plugins_cfg
              (manifest_of ''C'' []) = Inl ''the constructor of C threw''"
    by (simp add: broken_cycle_env_def server_path_def plugins_cfg_def)
  have c: "loadPlugin broken_cycle_env plugins_cfg 1 (plugin_ref ''C'') (resolved ''A'' ?s0)
      = Some (Inl (FrameworkError PLUGIN_LOAD_FAILED ''the constructor of C threw''), ?s')"
    using mc sc by (simp add: loadPlugin_Suc loadDependencies_def loadDependencies_with_def)
  have nil: "pluginsLoaded ?s0 = []" by (simp add: initial_state_def)
  have run: "loadPlugin broken_cycle_env plugins_cfg 2 (plugin_ref ''A'') ?s0
       = Some (Inl (FrameworkError PLUGIN_LOAD_FAILED ''the constructor of C threw''), ?s')"
    unfolding numeral_2_eq_2 loadPlugin_Suc[of _ _ "Suc 0"]
    using ma c nil
    by (simp add: loadDependencies_def loadDependencies_with_def)
  have l: "pluginsLoaded ?s' = [''A'', ''C'']" using nil by simp
  from ma mb mc run l show ?thesis by simp
qed

section \<open>Loading the same plugin again\<close>

text \<open>
  C3, as amended. \<^verbatim>\<open>loadPlugin\<close> itself never looks at the loaded set: a second direct
  call for the same id inserts the id again and repeats manifest resolution, schema
  discovery, instantiation and route registration. The check is in
  \<^verbatim>\<open>loadDependencies\<close>. What holds: one call of \<^verbatim>\<open>loadPlugin\<close> appends the requested
  id and then only ids that were not in the loaded set, each once; and once the call
  has returned, a plugin whose dependencies are all in the loaded set (the plugin just
  loaded among them) has its dependencies skipped with no effect at all on the state.
\<close>

theorem C3_loaded_plugin_is_skipped_as_dependency:
  assumes "loadPlugin E cfg n plugin s = Some (r, s')"
  shows "(\<exists>new. pluginsLoaded s' = pluginsLoaded s @ plugin_id plugin # new
            \<and> distinct (plugin_id plugin # new) \<and> set new \<inter> set (pluginsLoaded s) = {})
       \<and> (\<forall>k m deps. dependencies (server m) = Some deps
             \<and> (\<forall>d\<in>set deps. plugin_id d \<in> set (pluginsLoaded s'))
             \<longrightarrow> loadDependencies E cfg k m s' = Some (Inr (), s'))
       \<and> (\<forall>k m. dependencies (server m) = Some [plugin]
             \<longrightarrow> loadDependencies E cfg k m s' = Some (Inr (), s'))"
proof -
  from loadPlugin_claims[OF assms] have new:
    "\<exists>new. pluginsLoaded s' = pluginsLoaded s @ plugin_id plugin # new
            \<and> distinct (plugin_id plugin # new) \<and> set new \<inter> set (pluginsLoaded s) = {}" .
  have skip: "loadDependencies E cfg k m s' = Some (Inr (), s')"
    if "dependencies (server m) = Some deps" "\<forall>d\<in>set deps. plugin_id d \<in> set (pluginsLoaded s')"
    for k m deps
    using that by (simp add: loadDependencies_def loadDependencies_with_def for_of_all_loaded)
  from new have "plugin_id plugin \<in> set (pluginsLoaded s')" by auto
  then have self: "loadDependencies E cfg k m s' = Some (Inr (), s')"
    if "dependencies (server m) = Some [plugin]" for k m
    using that by (intro skip[of m "[plugin]"]) simp_all
  from new skip self show ?thesis by blast
qed

theorem C3_loaded_plugin_is_skipped_as_dependency_witness:
  "loadPlugin single_env plugins_cfg 1 (plugin_ref ''X'') (initial_state VUndefined)
     = Some (Inr (), loaded_once ''X'' (initial_state VUndefined))
   \<and> pluginsLoaded (loaded_once ''X'' (initial_state VUndefined)) = [''X'']
   \<and> loadDependencies single_env plugins_cfg 1 (manifest_of ''Y'' [''X''])
        (loaded_once ''X'' (initial_state VUndefined))
      = Some (Inr (), loaded_once ''X'' (initial_state VUndefined))"
proof -
  have run: "loadPlugin single_env plugins_cfg 1 (plugin_ref ''X'') (initial_state VUndefined)
     = Some (Inr (), loaded_once ''X'' (initial_state VUndefined))"
    by (simp add: single_env_def loaded_once_def plugin_ref_def manifest_of_def repository_def
          plugins_cfg_def loadPlugin_Suc loadDependencies_def loadDependencies_with_def
          manifest_path_def server_path_def routes_path_def)
  have deps: "dependencies (server (manifest_of ''Y'' [''X''])) = Some [plugin_ref ''X'']"
    by (simp add: manifest_of_def)
  have l: "pluginsLoaded (loaded_once ''X'' (initial_state VUndefined)) = [''X'']"
    by (simp add: loaded_once_def initial_state_def)
  from C3_loaded_plugin_is_skipped_as_dependency[OF run] deps
  have "loadDependencies single_env plugins_cfg 1 (manifest_of ''Y'' [''X''])
        (loaded_once ''X'' (initial_state VUndefined))
      = Some (Inr (), loaded_once ''X'' (initial_state VUndefined))" by blast
  with run l show ?thesis by simp
qed

theorem C3_loaded_plugin_is_skipped_as_dependency_counterexample:
  "loadPlugin single_env plugins_cfg 1 (plugin_ref ''X'') (initial_state VUndefined)
     = Some (Inr (), loaded_once ''X'' (initial_state VUndefined))
   \<and> loadPlugin single_env plugins_cfg 1 (plugin_ref ''X'') (loaded_once ''X'' (initial_state VUndefined))
     = Some (Inr (), loaded_once ''X'' (loaded_once ''X'' (initial_state VUndefined)))
   \<and> pluginsLoaded (loaded_once ''X'' (loaded_once ''X'' (initial_state VUndefined))) = [''X'', ''X'']
   \<and> events (loaded_once ''X'' (loaded_once ''X'' (initial_state VUndefined)))
     = [Claimed ''X'', ManifestResolved ''X'', SchemaGlobStarted ''X'', Instantiated ''X'',
        RoutesRegistered ''X'',
        Claimed ''X'', ManifestResolved ''X'', SchemaGlobStarted ''X'', Instantiated ''X'',
        RoutesRegistered ''X'']"
proof -
  have run: "loadPlugin single_env plugins_cfg 1 (plugin_ref ''X'') s = Some (Inr (), loaded_once ''X'' s)" for s
    by (simp add: single_env_def loaded_once_def plugin_ref_def manifest_of_def repository_def
          plugins_cfg_def loadPlugin_Suc loadDependencies_def loadDependencies_with_def
          manifest_path_def server_path_def routes_path_def)
  have l: "pluginsLoaded (loaded_once ''X'' (loaded_once ''X'' (initial_state VUndefined))) = [''X'', ''X'']"
    by (simp add: loaded_once_def initial_state_def)
  have e: "events (loaded_once ''X'' (loaded_once ''X'' (initial_state VUndefined)))
     = [Claimed ''X'', ManifestResolved ''X'', SchemaGlobStarted ''X'', Instantiated ''X'',
        RoutesRegistered ''X'',
        Claimed ''X'', ManifestResolved ''X'', SchemaGlobStarted ''X'', Instantiated ''X'',
        RoutesRegistered ''X'']"
    by (simp add: loaded_once_def initial_state_def manifest_of_def)
  from run l e show ?thesis by simp
qed

section \<open>A missing manifest is fatal to the whole call\<close>

text \<open>
  C5, as amended. The error does not name the plugin: a \<^verbatim>\<open>FrameworkError\<close> is built
  from a code and a \<^verbatim>\<open>rootError\<close> only, and the loads of P (which fails at its
  dependency D2) and of Q (which fails at its dependency D3) are rejected with the same
  value when both manifests fail with the same error. What holds: if during a call of
  \<^verbatim>\<open>loadPlugin\<close> the manifest lookup of some plugin \<open>d\<close> fails (the requested plugin
  or a dependency at any depth), then the call is rejected with the
  \<^verbatim>\<open>FrameworkError\<close> of code \<^verbatim>\<open>MANIFEST_NOT_FOUND\<close> whose \<^verbatim>\<open>rootError\<close> is the
  error of the import of \<open>d\<close>'s manifest, and the failed lookup is the last thing the
  call did: no step of any plugin follows it in the trace, and no other lookup failed
  before it. The call returns when finitely many plugins have a manifest.
\<close>

theorem C5_manifest_failure_aborts_the_call:
  "(\<forall>n r s' d. loadPlugin E cfg n plugin s = Some (r, s') \<and> ManifestFailed d \<in> set (added s s') \<longrightarrow>
        (\<exists>err pre. import_manifest E (manifest_path cfg d) = Inl err
           \<and> r = Inl (FrameworkError MANIFEST_NOT_FOUND err)
           \<and> events s' = events s @ pre @ [ManifestFailed d]
           \<and> (\<forall>j. ManifestFailed j \<notin> set pre)))
   \<and> (finite (resolvable E cfg) \<longrightarrow>
        (\<exists>n r s'. \<forall>k. loadPlugin E cfg (n + k) plugin s = Some (r, s')))"
proof (intro conjI allI impI)
  fix n r s' d
  assume a: "loadPlugin E cfg n plugin s = Some (r, s') \<and> ManifestFailed d \<in> set (added s s')"
  then have run: "loadPlugin E cfg n plugin s = Some (r, s')"
    and failed: "ManifestFailed d \<in> set (added s s')" by simp_all
  from tracedD[OF loadPlugin_traced run] obtain evs where
    e: "events s' = events s @ evs" "stops_at_failure E cfg r evs" by blast
  from e(1) have same: "added s s' = evs" by (rule added_append)
  from failed same have "\<not> quiet evs" by (auto simp: quiet_def)
  with e(2) obtain i err pre where
    f: "import_manifest E (manifest_path cfg i) = Inl err" "r = Inl (FrameworkError MANIFEST_NOT_FOUND err)"
       "evs = pre @ [ManifestFailed i]" "quiet pre"
    unfolding stops_at_failure_def by blast
  from failed same f(3,4) have "d = i" by (auto simp: quiet_def)
  with f e(1) show "\<exists>err pre. import_manifest E (manifest_path cfg d) = Inl err
           \<and> r = Inl (FrameworkError MANIFEST_NOT_FOUND err)
           \<and> events s' = events s @ pre @ [ManifestFailed d]
           \<and> (\<forall>j. ManifestFailed j \<notin> set pre)"
    unfolding quiet_def by blast
next
  assume "finite (resolvable E cfg)"
  then show "\<exists>n r s'. \<forall>k. loadPlugin E cfg (n + k) plugin s = Some (r, s')"
    by (rule loadPlugin_returns)
qed

theorem C5_manifest_failure_aborts_the_call_witness:
  "finite (resolvable missing_dependency_env plugins_cfg)
   \<and> (\<forall>k. loadPlugin missing_dependency_env plugins_cfg (2 + k) (plugin_ref ''P'') (initial_state VUndefined)
     = Some (Inl (FrameworkError MANIFEST_NOT_FOUND ''Cannot find module /plugins/D2/manifest''),
             log (ManifestFailed ''D2'')
               (claim ''D2'' (loaded_once ''D1'' (resolved ''P'' (initial_state VUndefined))))))
   \<and> events (log (ManifestFailed ''D2'')
               (claim ''D2'' (loaded_once ''D1'' (resolved ''P'' (initial_state VUndefined)))))
      = [Claimed ''P'', ManifestResolved ''P'',
         Claimed ''D1'', ManifestResolved ''D1'', SchemaGlobStarted ''D1'', Instantiated ''D1'',
         RoutesRegistered ''D1'',
         Claimed ''D2'', ManifestFailed ''D2'']
   \<and> (\<exists>err. import_manifest missing_dependency_env (manifest_path plugins_cfg ''D2'') = Inl err
         \<and> Inl (FrameworkError MANIFEST_NOT_FOUND ''Cannot find module /plugins/D2/manifest'')
             = (Inl (FrameworkError MANIFEST_NOT_FOUND err) :: error + unit))"
proof -
  let ?E = missing_dependency_env
  let ?s0 = "initial_state VUndefined"
  let ?s1 = "loaded_once ''D1'' (resolved ''P'' ?s0)"
  let ?s' = "log (ManifestFailed ''D2'') (claim ''D2'' ?s1)"
  let ?r = "Inl (FrameworkError MANIFEST_NOT_FOUND ''Cannot find module /plugins/D2/manifest'') :: error + unit"
  let ?evs = "[Claimed ''P'', ManifestResolved ''P'',
             Claimed ''D1'', ManifestResolved ''D1'', SchemaGlobStarted ''D1'', Instantiated ''D1'',
             RoutesRegistered ''D1'',
             Claimed ''D2'', ManifestFailed ''D2'']"
  have fin: "finite (resolvable ?E plugins_cfg)"
    unfolding missing_dependency_env_def by (rule finite_resolvable_repository)
  have d1: "loadPlugin ?E plugins_cfg 1 (plugin_ref ''D1'') s = Some (Inr (), loaded_once ''D1'' s)" for s
    by (simp add: missing_dependency_env_def loaded_once_def plugin_ref_def manifest_of_def
          repository_def plugins_cfg_def loadPlugin_Suc loadDependencies_def loadDependencies_with_def
          manifest_path_def server_path_def routes_path_def)
  have d2: "loadPlugin ?E plugins_cfg 1 (plugin_ref ''D2'') s
              = Some (Inl (FrameworkError MANIFEST_NOT_FOUND ''Cannot find module /plugins/D2/manifest''),
                      log (ManifestFailed ''D2'') (claim ''D2'' s))" for s
    by (simp add: missing_dependency_env_def plugin_ref_def manifest_of_def
          repository_def plugins_cfg_def loadPlugin_Suc manifest_path_def)
  have mp: "import_manifest ?E (manifest_path plugins_cfg ''P'')
              = Inr (manifest_of ''P'' [''D1'', ''D2'', ''D3''])"
    by (simp add: missing_dependency_env_def repository_def manifest_path_def plugins_cfg_def)
  have l0: "pluginsLoaded (resolved ''P'' ?s0) = [''P'']" by (simp add: initial_state_def)
  have l1: "pluginsLoaded ?s1 = [''P'', ''D1'']" by (simp add: loaded_once_def initial_state_def)
  have run: "loadPlugin ?E plugins_cfg 2 (plugin_ref ''P'') ?s0 = Some (?r, ?s')"
    unfolding numeral_2_eq_2 loadPlugin_Suc[of _ _ "Suc 0"]
    using mp d1 d2 l0 l1
    by (simp add: plugin_ref_def manifest_of_def loadDependencies_def loadDependencies_with_def)
  have all: "loadPlugin ?E plugins_cfg (2 + k) (plugin_ref ''P'') ?s0 = Some (?r, ?s')" for k
    using run by (rule loadPlugin_mono) simp
  have evs: "events ?s' = ?evs"
    by (simp add: loaded_once_def initial_state_def manifest_of_def)
  have e0: "events ?s0 = []" by (simp add: initial_state_def)
  have "added ?s0 ?s' = ?evs" by (rule added_append) (simp add: evs e0)
  then have failed: "ManifestFailed ''D2'' \<in> set (added ?s0 ?s')" by simp
  from C5_manifest_failure_aborts_the_call[of ?E plugins_cfg "plugin_ref ''P''" ?s0] run failed
  have "\<exists>err pre. import_manifest ?E (manifest_path plugins_cfg ''D2'') = Inl err
           \<and> ?r = Inl (FrameworkError MANIFEST_NOT_FOUND err)
           \<and> events ?s' = events ?s0 @ pre @ [ManifestFailed ''D2'']
           \<and> (\<forall>j. ManifestFailed j \<notin> set pre)"
    by blast
  then have "\<exists>err. import_manifest ?E (manifest_path plugins_cfg ''D2'') = Inl err
           \<and> ?r = Inl (FrameworkError MANIFEST_NOT_FOUND err)" by blast
  with fin all evs show ?thesis by blast
qed

theorem C5_manifest_failure_aborts_the_call_counterexample:
  "loadPlugin unreadable_env plugins_cfg 2 (plugin_ref ''P'') (initial_state VUndefined)
     = Some (Inl (FrameworkError MANIFEST_NOT_FOUND ''Unexpected end of JSON input''),
             log (ManifestFailed ''D2'') (claim ''D2'' (resolved ''P'' (initial_state VUndefined))))
   \<and> loadPlugin unreadable_env plugins_cfg 2 (plugin_ref ''Q'') (initial_state VUndefined)
     = Some (Inl (FrameworkError MANIFEST_NOT_FOUND ''Unexpected end of JSON input''),
             log (ManifestFailed ''D3'') (claim ''D3'' (resolved ''Q'' (initial_state VUndefined))))"
proof -
  let ?s0 = "initial_state VUndefined"
  have mp: "import_manifest unreadable_env (manifest_path plugins_cfg ''P'') = Inr (manifest_of ''P'' [''D2''])"
    and mq: "import_manifest unreadable_env (manifest_path plugins_cfg ''Q'') = Inr (manifest_of ''Q'' [''D3''])"
    and m2: "import_manifest unreadable_env (manifest_path plugins_cfg ''D2'') = Inl ''Unexpected end of JSON input''"
    and m3: "import_manifest unreadable_env (manifest_path plugins_cfg ''D3'') = Inl ''Unexpected end of JSON input''"
    by (simp_all add: unreadable_env_def manifest_path_def plugins_cfg_def)
  have d2: "loadPlugin unreadable_env plugins_cfg 1 (plugin_ref ''D2'') s
              = Some (Inl (FrameworkError MANIFEST_NOT_FOUND ''Unexpected end of JSON input''),
                      log (ManifestFailed ''D2'') (claim ''D2'' s))"
    and d3: "loadPlugin unreadable_env plugins_cfg 1 (plugin_ref ''D3'') s
              = Some (Inl (FrameworkError MANIFEST_NOT_FOUND ''Unexpected end of JSON input''),
                      log (ManifestFailed ''D3'') (claim ''D3'' s))" for s
    using m2 m3 unfolding One_nat_def by (simp_all add: loadPlugin_Suc)
  have l: "pluginsLoaded (resolved ''P'' ?s0) = [''P'']" "pluginsLoaded (resolved ''Q'' ?s0) = [''Q'']"
    by (simp_all add: initial_state_def)
  have p: "loadPlugin unreadable_env plugins_cfg 2 (plugin_ref ''P'') ?s0
     = Some (Inl (FrameworkError MANIFEST_NOT_FOUND ''Unexpected end of JSON input''),
             log (ManifestFailed ''D2'') (claim ''D2'' (resolved ''P'' ?s0)))"
    unfolding numeral_2_eq_2 loadPlugin_Suc[of _ _ "Suc 0"]
    using mp d2 l by (simp add: loadDependencies_def loadDependencies_with_def)
  have q: "loadPlugin unreadable_env plugins_cfg 2 (plugin_ref ''Q'') ?s0
     = Some (Inl (FrameworkError MANIFEST_NOT_FOUND ''Unexpected end of JSON input''),
             log (ManifestFailed ''D3'') (claim ''D3'' (resolved ''Q'' ?s0)))"
    unfolding numeral_2_eq_2 loadPlugin_Suc[of _ _ "Suc 0"]
    using mq d3 l by (simp add: loadDependencies_def loadDependencies_with_def)
  from p q show ?thesis by simp
qed


section \<open>Scenario: the linear chain\<close>

text \<open>
  C7. Linear chain: A has no dependencies, B depends on A, C depends on B; the three
  plugins can be constructed and their routes registered, and A and B are not in the
  loaded set. Then \<^verbatim>\<open>loadPlugin(C)\<close> succeeds (with any recursion bound from three on),
  \<^verbatim>\<open>PluginManager.instances\<close> holds the instances of A, B and C afterwards, and the
  trace shows the instantiations in the order A, B, C, each plugin completing its
  steps before the plugin that depends on it starts schema discovery.
\<close>

theorem C7_linear_chain:
  assumes mA: "import_manifest E (manifest_path cfg ''A'') = Inr (manifest_of ''A'' [])"
    and mB: "import_manifest E (manifest_path cfg ''B'') = Inr (manifest_of ''B'' [''A''])"
    and mC: "import_manifest E (manifest_path cfg ''C'') = Inr (manifest_of ''C'' [''B''])"
    and sA: "new_server E (server_path cfg (manifest_of ''A'' [])) cfg (manifest_of ''A'' []) = Inr iA"
    and sB: "new_server E (server_path cfg (manifest_of ''B'' [''A''])) cfg (manifest_of ''B'' [''A'']) = Inr iB"
    and sC: "new_server E (server_path cfg (manifest_of ''C'' [''B''])) cfg (manifest_of ''C'' [''B'']) = Inr iC"
    and rA: "init_router E (routes_path cfg (manifest_of ''A'' [])) (manifest_of ''A'' []) = None"
    and rB: "init_router E (routes_path cfg (manifest_of ''B'' [''A''])) (manifest_of ''B'' [''A'']) = None"
    and rC: "init_router E (routes_path cfg (manifest_of ''C'' [''B''])) (manifest_of ''C'' [''B'']) = None"
    and fresh: "''A'' \<notin> set (pluginsLoaded s)" "''B'' \<notin> set (pluginsLoaded s)"
  shows "\<exists>s' evs. loadPlugin E cfg (Suc (Suc (Suc k))) (plugin_ref ''C'') s = Some (Inr (), s')
           \<and> instances s' ''A'' = Some iA \<and> instances s' ''B'' = Some iB \<and> instances s' ''C'' = Some iC
           \<and> events s' = events s @ evs
           \<and> evs = [Claimed ''C'', ManifestResolved ''C'', Claimed ''B'', ManifestResolved ''B'',
                     Claimed ''A'', ManifestResolved ''A'',
                     SchemaGlobStarted ''A'', Instantiated ''A'', RoutesRegistered ''A'',
                     SchemaGlobStarted ''B'', Instantiated ''B'', RoutesRegistered ''B'',
                     SchemaGlobStarted ''C'', Instantiated ''C'', RoutesRegistered ''C'']
           \<and> instantiations evs = [''A'', ''B'', ''C'']"
proof -
  let ?mA = "manifest_of ''A'' []" and ?mB = "manifest_of ''B'' [''A'']" and ?mC = "manifest_of ''C'' [''B'']"
  let ?sA = "log (RoutesRegistered ''A'') (instantiated ?mA iA (resolved ''A'' (resolved ''B'' (resolved ''C'' s))))"
  let ?sB = "log (RoutesRegistered ''B'') (instantiated ?mB iB ?sA)"
  let ?sC = "log (RoutesRegistered ''C'') (instantiated ?mC iC ?sB)"
  have ids: "manifest_id ?mA = ''A''" "manifest_id ?mB = ''B''" "manifest_id ?mC = ''C''"
    by (simp_all add: manifest_of_def)
  have deps: "dependencies (server ?mA) = Some []" "dependencies (server ?mB) = Some [plugin_ref ''A'']"
    "dependencies (server ?mC) = Some [plugin_ref ''B'']"
    by (simp_all add: manifest_of_def)
  have pid: "plugin_id (plugin_ref i) = i" for i by (simp add: plugin_ref_def)
  have a: "loadPlugin E cfg (Suc k) (plugin_ref ''A'') t
             = Some (Inr (), log (RoutesRegistered ''A'') (instantiated ?mA iA (resolved ''A'' t)))" for t
    using mA sA rA
    by (simp add: loadPlugin_Suc pid ids deps loadDependencies_def loadDependencies_with_def)
  have b: "loadPlugin E cfg (Suc (Suc k)) (plugin_ref ''B'') (resolved ''C'' s) = Some (Inr (), ?sB)"
    using mB sB rB fresh a[of "resolved ''B'' (resolved ''C'' s)"]
    by (simp add: loadPlugin_Suc[of _ _ "Suc k"] pid ids deps loadDependencies_def loadDependencies_with_def)
  have c: "loadPlugin E cfg (Suc (Suc (Suc k))) (plugin_ref ''C'') s = Some (Inr (), ?sC)"
    using mC sC rC fresh b
    by (simp add: loadPlugin_Suc[of _ _ "Suc (Suc k)"] pid ids deps loadDependencies_def loadDependencies_with_def)
  have i: "instances ?sC ''A'' = Some iA" "instances ?sC ''B'' = Some iB" "instances ?sC ''C'' = Some iC"
    by (simp_all add: ids)
  have e: "events ?sC = events s @ [Claimed ''C'', ManifestResolved ''C'', Claimed ''B'', ManifestResolved ''B'',
                     Claimed ''A'', ManifestResolved ''A'',
                     SchemaGlobStarted ''A'', Instantiated ''A'', RoutesRegistered ''A'',
                     SchemaGlobStarted ''B'', Instantiated ''B'', RoutesRegistered ''B'',
                     SchemaGlobStarted ''C'', Instantiated ''C'', RoutesRegistered ''C'']"
    by (simp add: ids)
  have o: "instantiations [Claimed ''C'', ManifestResolved ''C'', Claimed ''B'', ManifestResolved ''B'',
                     Claimed ''A'', ManifestResolved ''A'',
                     SchemaGlobStarted ''A'', Instantiated ''A'', RoutesRegistered ''A'',
                     SchemaGlobStarted ''B'', Instantiated ''B'', RoutesRegistered ''B'',
                     SchemaGlobStarted ''C'', Instantiated ''C'', RoutesRegistered ''C''] = [''A'', ''B'', ''C'']"
    by simp
  from c i e o show ?thesis by blast
qed

theorem C7_linear_chain_witness:
  "\<exists>s'. loadPlugin chain_env plugins_cfg 3 (plugin_ref ''C'') (initial_state VUndefined) = Some (Inr (), s')
     \<and> instances s' ''A'' = Some (PluginInstance ''/plugins/A/server'')
     \<and> instances s' ''B'' = Some (PluginInstance ''/plugins/B/server'')
     \<and> instances s' ''C'' = Some (PluginInstance ''/plugins/C/server'')
     \<and> events s' = [Claimed ''C'', ManifestResolved ''C'', Claimed ''B'', ManifestResolved ''B'',
                     Claimed ''A'', ManifestResolved ''A'',
                     SchemaGlobStarted ''A'', Instantiated ''A'', RoutesRegistered ''A'',
                     SchemaGlobStarted ''B'', Instantiated ''B'', RoutesRegistered ''B'',
                     SchemaGlobStarted ''C'', Instantiated ''C'', RoutesRegistered ''C'']"
proof -
  have mA: "import_manifest chain_env (manifest_path plugins_cfg ''A'') = Inr (manifest_of ''A'' [])"
    and mB: "import_manifest chain_env (manifest_path plugins_cfg ''B'') = Inr (manifest_of ''B'' [''A''])"
    and mC: "import_manifest chain_env (manifest_path plugins_cfg ''C'') = Inr (manifest_of ''C'' [''B''])"
    by (simp_all add: chain_env_def repository_def manifest_path_def plugins_cfg_def)
  have sA: "new_server chain_env (server_path plugins_cfg (manifest_of ''A'' [])) plugins_cfg (manifest_of ''A'' [])
              = Inr (PluginInstance ''/plugins/A/server'')"
    and sB: "new_server chain_env (server_path plugins_cfg (manifest_of ''B'' [''A''])) plugins_cfg
               (manifest_of ''B'' [''A'']) = Inr (PluginInstance ''/plugins/B/server'')"
    and sC: "new_server chain_env (server_path plugins_cfg (manifest_of ''C'' [''B''])) plugins_cfg
               (manifest_of ''C'' [''B'']) = Inr (PluginInstance ''/plugins/C/server'')"
    by (simp_all add: chain_env_def server_path_def plugins_cfg_def manifest_of_def)
  have rA: "init_router chain_env (routes_path plugins_cfg (manifest_of ''A'' [])) (manifest_of ''A'' []) = None"
    and rB: "init_router chain_env (routes_path plugins_cfg (manifest_of ''B'' [''A''])) (manifest_of ''B'' [''A'']) = None"
    and rC: "init_router chain_env (routes_path plugins_cfg (manifest_of ''C'' [''B''])) (manifest_of ''C'' [''B'']) = None"
    by (simp_all add: chain_env_def)
  have fresh: "''A'' \<notin> set (pluginsLoaded (initial_state VUndefined))"
    "''B'' \<notin> set (pluginsLoaded (initial_state VUndefined))"
    by (simp_all add: initial_state_def)
  have nil: "events (initial_state VUndefined) = []" by (simp add: initial_state_def)
  from C7_linear_chain[OF mA mB mC sA sB sC rA rB rC fresh, of 0] nil
  show ?thesis by (auto simp: numeral_3_eq_3)
qed

section \<open>Scenario: the diamond\<close>

text \<open>
  C6. Diamond: A has no dependencies, B and C depend on A, D depends on B and C, in
  that order; A, B and C are not in the loaded set. Whatever the constructors and
  routers of the four plugins do, \<^verbatim>\<open>loadPlugin(D)\<close> returns (with any recursion bound
  from three on), and the events about A in the trace of the call are those of one load:
  one claim, one manifest resolution, and steps 5 to 7 run once. A occurs once in the
  loaded set afterwards. C finds A in the loaded set and does not load it again.
\<close>

theorem C6_diamond_loads_A_once:
  assumes mA: "import_manifest E (manifest_path cfg ''A'') = Inr (manifest_of ''A'' [])"
    and mB: "import_manifest E (manifest_path cfg ''B'') = Inr (manifest_of ''B'' [''A''])"
    and mC: "import_manifest E (manifest_path cfg ''C'') = Inr (manifest_of ''C'' [''A''])"
    and mD: "import_manifest E (manifest_path cfg ''D'') = Inr (manifest_of ''D'' [''B'', ''C''])"
    and fresh: "''A'' \<notin> set (pluginsLoaded s)" "''B'' \<notin> set (pluginsLoaded s)"
      "''C'' \<notin> set (pluginsLoaded s)"
  shows "\<exists>r s' evs. loadPlugin E cfg (Suc (Suc (Suc k))) (plugin_ref ''D'') s = Some (r, s')
           \<and> events s' = events s @ evs
           \<and> events_of ''A'' evs
               = Claimed ''A'' # ManifestResolved ''A'' # steps_5_to_7_events E cfg (manifest_of ''A'' [])
           \<and> count_list (pluginsLoaded s') ''A'' = 1"
proof -
  let ?mA = "manifest_of ''A'' []" and ?mB = "manifest_of ''B'' [''A'']"
  let ?mC = "manifest_of ''C'' [''A'']" and ?mD = "manifest_of ''D'' [''B'', ''C'']"
  let ?s0 = "resolved ''D'' s"
  let ?s1 = "resolved ''B'' ?s0"
  let ?goal = "\<lambda>s'. \<exists>evs. events s' = events s @ evs
           \<and> events_of ''A'' evs = Claimed ''A'' # ManifestResolved ''A'' # steps_5_to_7_events E cfg ?mA
           \<and> count_list (pluginsLoaded s') ''A'' = 1"
  have count0: "count_list (pluginsLoaded s) ''A'' = 0" using fresh(1) by (simp add: count_list_0_iff)
  have la: "loadPlugin E cfg (Suc k) (plugin_ref ''A'') ?s1 = Some (steps_5_to_7 E cfg ?mA (resolved ''A'' ?s1))"
    by (rule loadPlugin_leaf[OF mA manifest_of_simps(2)]) simp
  obtain rA tA where a: "steps_5_to_7 E cfg ?mA (resolved ''A'' ?s1) = (rA, tA)"
    by (cases "steps_5_to_7 E cfg ?mA (resolved ''A'' ?s1)")
  from steps_5_to_7_state[OF a]
  have tA: "events tA = events s @ [Claimed ''D'', ManifestResolved ''D'', Claimed ''B'', ManifestResolved ''B'',
              Claimed ''A'', ManifestResolved ''A''] @ steps_5_to_7_events E cfg ?mA"
      "pluginsLoaded tA = pluginsLoaded s @ [''D'', ''B'', ''A'']"
    by simp_all
  have gA: "?goal tA"
    using tA count0 by (simp add: events_of_steps_5_to_7)
  have lb: "loadPlugin E cfg (Suc (Suc k)) (plugin_ref ''B'') ?s0 =
          (case rA of Inl e \<Rightarrow> Some (Inl e, tA) | Inr u \<Rightarrow> Some (steps_5_to_7 E cfg ?mB tA))"
  proof (rule loadPlugin_one_dependency[OF mB])
    show "dependencies (server ?mB) = Some [plugin_ref ''A'']" by simp
    show "''A'' \<notin> set (pluginsLoaded ?s0)" using fresh by simp
    show "''A'' \<noteq> ''B''" by simp
    show "loadPlugin E cfg (Suc k) (plugin_ref ''A'') ?s1 = Some (rA, tA)" using la a by simp
  qed
  have ld: "loadPlugin E cfg (Suc (Suc (Suc k))) (plugin_ref ''D'') s =
          (case loadPlugin E cfg (Suc (Suc k)) (plugin_ref ''B'') ?s0 of
             None \<Rightarrow> None
           | Some (Inl e, t) \<Rightarrow> Some (Inl e, t)
           | Some (Inr u, t) \<Rightarrow>
               (case for_of_dependencies (loadPlugin E cfg (Suc (Suc k))) [plugin_ref ''C''] t of
                  None \<Rightarrow> None
                | Some (Inl e, t') \<Rightarrow> Some (Inl e, t')
                | Some (Inr u, t') \<Rightarrow> Some (steps_5_to_7 E cfg ?mD t')))"
    using mD fresh
    by (simp add: loadPlugin_Suc_steps[of _ _ "Suc (Suc k)"] loadDependencies_def loadDependencies_with_def
          split: option.splits sum.splits prod.splits)
  show ?thesis
  proof (cases rA)
    case (Inl e)
    with lb ld have "loadPlugin E cfg (Suc (Suc (Suc k))) (plugin_ref ''D'') s = Some (Inl e, tA)"
      by simp
    with gA show ?thesis by blast
  next
    case rA: (Inr uA)
    obtain rB tB where b: "steps_5_to_7 E cfg ?mB tA = (rB, tB)"
      by (cases "steps_5_to_7 E cfg ?mB tA")
    from steps_5_to_7_state[OF b] tA
    have tB: "events tB = events s @ [Claimed ''D'', ManifestResolved ''D'', Claimed ''B'', ManifestResolved ''B'',
              Claimed ''A'', ManifestResolved ''A''] @ steps_5_to_7_events E cfg ?mA
              @ steps_5_to_7_events E cfg ?mB"
      "pluginsLoaded tB = pluginsLoaded s @ [''D'', ''B'', ''A'']"
      by simp_all
    have gB: "?goal tB"
      using tB count0 by (simp add: events_of_steps_5_to_7)
    from lb rA b have lb': "loadPlugin E cfg (Suc (Suc k)) (plugin_ref ''B'') ?s0 = Some (rB, tB)" by simp
    show ?thesis
    proof (cases rB)
      case (Inl e)
      with lb' ld have "loadPlugin E cfg (Suc (Suc (Suc k))) (plugin_ref ''D'') s = Some (Inl e, tB)"
        by simp
      with gB show ?thesis by blast
    next
      case rB: (Inr uB)
      have lc: "loadPlugin E cfg (Suc (Suc k)) (plugin_ref ''C'') tB
                  = Some (steps_5_to_7 E cfg ?mC (resolved ''C'' tB))"
        by (rule loadPlugin_leaf[OF mC manifest_of_simps(2)]) (use tB in simp)
      obtain rC tC where c: "steps_5_to_7 E cfg ?mC (resolved ''C'' tB) = (rC, tC)"
        by (cases "steps_5_to_7 E cfg ?mC (resolved ''C'' tB)")
      from steps_5_to_7_state[OF c] tB
      have tC: "events tC = events s @ [Claimed ''D'', ManifestResolved ''D'', Claimed ''B'', ManifestResolved ''B'',
              Claimed ''A'', ManifestResolved ''A''] @ steps_5_to_7_events E cfg ?mA
              @ steps_5_to_7_events E cfg ?mB @ [Claimed ''C'', ManifestResolved ''C'']
              @ steps_5_to_7_events E cfg ?mC"
        "pluginsLoaded tC = pluginsLoaded s @ [''D'', ''B'', ''A'', ''C'']"
        by simp_all
      have gC: "?goal tC"
        using tC count0 by (simp add: events_of_steps_5_to_7)
      have loopC: "for_of_dependencies (loadPlugin E cfg (Suc (Suc k))) [plugin_ref ''C''] tB
                     = (case rC of Inl e \<Rightarrow> Some (Inl e, tC) | Inr u \<Rightarrow> Some (Inr (), tC))"
        using lc c tB(2) fresh(3) by (simp split: sum.splits)
      show ?thesis
      proof (cases rC)
        case (Inl e)
        with lb' rB ld loopC
        have "loadPlugin E cfg (Suc (Suc (Suc k))) (plugin_ref ''D'') s = Some (Inl e, tC)"
          by simp
        with gC show ?thesis by blast
      next
        case rC: (Inr uC)
        obtain rD tD where d: "steps_5_to_7 E cfg ?mD tC = (rD, tD)"
          by (cases "steps_5_to_7 E cfg ?mD tC")
        from steps_5_to_7_state[OF d] tC
        have tD: "events tD = events s @ [Claimed ''D'', ManifestResolved ''D'', Claimed ''B'', ManifestResolved ''B'',
              Claimed ''A'', ManifestResolved ''A''] @ steps_5_to_7_events E cfg ?mA
              @ steps_5_to_7_events E cfg ?mB @ [Claimed ''C'', ManifestResolved ''C'']
              @ steps_5_to_7_events E cfg ?mC @ steps_5_to_7_events E cfg ?mD"
          "pluginsLoaded tD = pluginsLoaded s @ [''D'', ''B'', ''A'', ''C'']"
          by simp_all
        have gD: "?goal tD"
          using tD count0 by (simp add: events_of_steps_5_to_7)
        from lb' rB ld loopC rC d
        have "loadPlugin E cfg (Suc (Suc (Suc k))) (plugin_ref ''D'') s = Some (rD, tD)"
          by simp
        with gD show ?thesis by blast
      qed
    qed
  qed
qed

theorem C6_diamond_loads_A_once_witness:
  "\<exists>r s' evs. loadPlugin diamond_env plugins_cfg 3 (plugin_ref ''D'') (initial_state VUndefined) = Some (r, s')
     \<and> events s' = evs
     \<and> events_of ''A'' evs
         = [Claimed ''A'', ManifestResolved ''A'', SchemaGlobStarted ''A'', Instantiated ''A'',
            RoutesRegistered ''A'']
     \<and> count_list (pluginsLoaded s') ''A'' = 1"
proof -
  have mA: "import_manifest diamond_env (manifest_path plugins_cfg ''A'') = Inr (manifest_of ''A'' [])"
    and mB: "import_manifest diamond_env (manifest_path plugins_cfg ''B'') = Inr (manifest_of ''B'' [''A''])"
    and mC: "import_manifest diamond_env (manifest_path plugins_cfg ''C'') = Inr (manifest_of ''C'' [''A''])"
    and mD: "import_manifest diamond_env (manifest_path plugins_cfg ''D'')
               = Inr (manifest_of ''D'' [''B'', ''C''])"
    by (simp_all add: diamond_env_def repository_def manifest_path_def plugins_cfg_def)
  have fresh: "''A'' \<notin> set (pluginsLoaded (initial_state VUndefined))"
    "''B'' \<notin> set (pluginsLoaded (initial_state VUndefined))"
    "''C'' \<notin> set (pluginsLoaded (initial_state VUndefined))"
    by (simp_all add: initial_state_def)
  have nil: "events (initial_state VUndefined) = []" by (simp add: initial_state_def)
  have st: "steps_5_to_7_events diamond_env plugins_cfg (manifest_of ''A'' [])
              = [SchemaGlobStarted ''A'', Instantiated ''A'', RoutesRegistered ''A'']"
    by (simp add: steps_5_to_7_events_def diamond_env_def)
  from C6_diamond_loads_A_once[OF mA mB mC mD fresh, of 0] nil st
  show ?thesis by (simp add: numeral_3_eq_3)
qed

section \<open>The order of the dependencies\<close>

text \<open>
  C4, as amended. The claim as stated fails when D1 itself depends on D2: then D2 is
  claimed and loaded during the load of D1, before D1 is instantiated. It also fails
  when D1 is in the loaded set already, as when P is loaded as a dependency of D1: then
  P skips D1 and is instantiated before D1. What holds, for a plugin P whose manifest
  lists the dependencies D1 and D2 in that order, of every call of \<^verbatim>\<open>loadPlugin\<close>
  for P that returns, fulfilled or rejected: the call claims P and resolves its
  manifest, then takes the turn of D1, then, unless that turn was rejected, the turn of
  D2, then, unless that turn was rejected, runs the schema discovery, instantiation and
  route registration of P; the trace of the call is these stretches in this order. A
  turn skips a dependency that is in the loaded set (claimed before the call, P itself,
  or, for D2, claimed during the turn of D1), whatever became of that dependency's own
  load; otherwise the turn is one whole call of \<^verbatim>\<open>loadPlugin\<close> for the dependency,
  from its claim to its route registration when it is fulfilled. A rejected turn
  rejects the call with its error, and nothing follows it. Of the schema step the trace
  has the call of \<^verbatim>\<open>glob\<close> only: its callbacks are still pending when
  \<^verbatim>\<open>loadPlugin\<close> returns. The call returns when finitely many plugins have a manifest.
\<close>

theorem C4_dependencies_load_in_order:
  assumes m: "import_manifest E (manifest_path cfg (plugin_id p)) = Inr m"
    and deps: "dependencies (server m) = Some [d1, d2]"
  shows "(\<forall>n r s'. loadPlugin E cfg n p s = Some (r, s') \<longrightarrow>
           (\<exists>T1 T2 T3 r1 s1 r2 s2.
               events s' = events s @ [Claimed (plugin_id p), ManifestResolved (plugin_id p)] @ T1 @ T2 @ T3
             \<and> dependency_turn E cfg d1 (resolved (plugin_id p) s) r1 s1 T1
             \<and> (if r1 = Inr () then dependency_turn E cfg d2 s1 r2 s2 T2
                else T2 = [] \<and> r2 = r1 \<and> s2 = s1)
             \<and> (if r2 = Inr () then steps_5_to_7 E cfg m s2 = (r, s') \<and> T3 = steps_5_to_7_events E cfg m
                else T3 = [] \<and> r = r2 \<and> s' = s2)
             \<and> pluginsLoaded s1 = pluginsLoaded s @ plugin_id p # claims_in T1))
       \<and> (finite (resolvable E cfg) \<longrightarrow>
            (\<exists>n r s'. \<forall>k. loadPlugin E cfg (n + k) p s = Some (r, s')))"
proof (intro conjI allI impI)
  assume "finite (resolvable E cfg)"
  then show "\<exists>n r s'. \<forall>k. loadPlugin E cfg (n + k) p s = Some (r, s')"
    by (rule loadPlugin_returns)
next
  fix n r s'
  assume run: "loadPlugin E cfg n p s = Some (r, s')"
  let ?i = "plugin_id p"
  let ?R = "resolved ?i s"
  let ?goal = "\<exists>T1 T2 T3 r1 s1 r2 s2.
               events s' = events s @ [Claimed ?i, ManifestResolved ?i] @ T1 @ T2 @ T3
             \<and> dependency_turn E cfg d1 ?R r1 s1 T1
             \<and> (if r1 = Inr () then dependency_turn E cfg d2 s1 r2 s2 T2
                else T2 = [] \<and> r2 = r1 \<and> s2 = s1)
             \<and> (if r2 = Inr () then steps_5_to_7 E cfg m s2 = (r, s') \<and> T3 = steps_5_to_7_events E cfg m
                else T3 = [] \<and> r = r2 \<and> s' = s2)
             \<and> pluginsLoaded s1 = pluginsLoaded s @ ?i # claims_in T1"
  have loop: ?goal
    if l: "for_of_dependencies (loadPlugin E cfg k) [d1, d2] ?R = Some (rd, s3)"
      and fin: "if rd = Inr () then steps_5_to_7 E cfg m s3 = (r, s') else r = rd \<and> s' = s3"
    for k rd s3
  proof -
    from two_dependencies[OF l] obtain r1 s1 where
      t1: "dependency_turn E cfg d1 ?R r1 s1 (added ?R s1)"
      and t2: "if r1 = Inr () then dependency_turn E cfg d2 s1 rd s3 (added s1 s3)
               else added s1 s3 = [] \<and> rd = r1 \<and> s3 = s1"
      and e1: "extends ?R s1" and e2: "extends s1 s3"
      by blast
    let ?T3 = "if rd = Inr () then steps_5_to_7_events E cfg m else []"
    have ev3: "events s3 = events s @ [Claimed ?i, ManifestResolved ?i] @ added ?R s1 @ added s1 s3"
      using e1 e2 by (simp add: extends_def)
    have ev: "events s' = events s @ [Claimed ?i, ManifestResolved ?i] @ added ?R s1 @ added s1 s3 @ ?T3"
    proof (cases "rd = Inr ()")
      case True
      with fin have "steps_5_to_7 E cfg m s3 = (r, s')" by simp
      from steps_5_to_7_state(1)[OF this] ev3 True show ?thesis by simp
    next
      case False
      with fin ev3 show ?thesis by simp
    qed
    have l1: "pluginsLoaded s1 = pluginsLoaded s @ ?i # claims_in (added ?R s1)"
      using e1 by (simp add: extends_def)
    have last: "if rd = Inr () then steps_5_to_7 E cfg m s3 = (r, s') \<and> ?T3 = steps_5_to_7_events E cfg m
                else ?T3 = [] \<and> r = rd \<and> s' = s3"
      using fin by simp
    from ev t1 t2 last l1 show ?thesis by blast
  qed
  show ?goal
  proof (cases n)
    case 0
    with run show ?thesis by simp
  next
    case (Suc k)
    from run[unfolded Suc] show ?thesis
    proof (cases rule: loadPlugin_Suc_trace)
      case (manifest_failed err)
      with m show ?thesis by simp
    next
      case (dependencies_failed m' e)
      with m have mm: "m' = m" by simp
      from dependencies_failed(2) deps
      have l: "for_of_dependencies (loadPlugin E cfg k) [d1, d2] ?R = Some (Inl e, s')"
        unfolding mm by (simp add: loadDependencies_def loadDependencies_with_def)
      show ?thesis by (rule loop[OF l]) (simp add: dependencies_failed(3))
    next
      case (steps m' s3)
      with m have mm: "m' = m" by simp
      from steps(2) deps
      have l: "for_of_dependencies (loadPlugin E cfg k) [d1, d2] ?R = Some (Inr (), s3)"
        unfolding mm by (simp add: loadDependencies_def loadDependencies_with_def)
      show ?thesis by (rule loop[OF l]) (simp add: steps(3)[unfolded mm])
    qed
  qed
qed

theorem C4_dependencies_load_in_order_witness:
  "import_manifest ordered_env (manifest_path plugins_cfg ''P'') = Inr (manifest_of ''P'' [''D1'', ''D2''])
   \<and> finite (resolvable ordered_env plugins_cfg)
   \<and> loadPlugin ordered_env plugins_cfg 2 (plugin_ref ''P'') (initial_state VUndefined)
      = Some (Inr (),
          log (RoutesRegistered ''P'')
            (instantiated (manifest_of ''P'' [''D1'', ''D2'']) (PluginInstance ''/plugins/P/server'')
              (loaded_once ''D2'' (loaded_once ''D1'' (resolved ''P'' (initial_state VUndefined))))))
   \<and> (\<exists>T1 T2 T3.
         [Claimed ''P'', ManifestResolved ''P'',
          Claimed ''D1'', ManifestResolved ''D1'', SchemaGlobStarted ''D1'', Instantiated ''D1'',
          RoutesRegistered ''D1'',
          Claimed ''D2'', ManifestResolved ''D2'', SchemaGlobStarted ''D2'', Instantiated ''D2'',
          RoutesRegistered ''D2'',
          SchemaGlobStarted ''P'', Instantiated ''P'', RoutesRegistered ''P'']
           = [Claimed ''P'', ManifestResolved ''P''] @ T1 @ T2 @ T3
       \<and> complete_load ordered_env plugins_cfg ''D1'' T1
       \<and> complete_load ordered_env plugins_cfg ''D2'' T2
       \<and> T3 = [SchemaGlobStarted ''P'', Instantiated ''P'', RoutesRegistered ''P''])"
proof -
  let ?E = ordered_env
  let ?s0 = "initial_state VUndefined"
  let ?mP = "manifest_of ''P'' [''D1'', ''D2'']"
  let ?R = "resolved ''P'' ?s0"
  let ?s3 = "loaded_once ''D2'' (loaded_once ''D1'' ?R)"
  let ?s' = "log (RoutesRegistered ''P'') (instantiated ?mP (PluginInstance ''/plugins/P/server'') ?s3)"
  let ?trace = "[Claimed ''P'', ManifestResolved ''P'',
          Claimed ''D1'', ManifestResolved ''D1'', SchemaGlobStarted ''D1'', Instantiated ''D1'',
          RoutesRegistered ''D1'',
          Claimed ''D2'', ManifestResolved ''D2'', SchemaGlobStarted ''D2'', Instantiated ''D2'',
          RoutesRegistered ''D2'',
          SchemaGlobStarted ''P'', Instantiated ''P'', RoutesRegistered ''P'']"
  have fin: "finite (resolvable ?E plugins_cfg)"
    unfolding ordered_env_def by (rule finite_resolvable_repository)
  have mp: "import_manifest ?E (manifest_path plugins_cfg ''P'') = Inr ?mP"
    and m1: "import_manifest ?E (manifest_path plugins_cfg ''D1'') = Inr (manifest_of ''D1'' [])"
    and m2: "import_manifest ?E (manifest_path plugins_cfg ''D2'') = Inr (manifest_of ''D2'' [])"
    by (simp_all add: ordered_env_def repository_def manifest_path_def plugins_cfg_def)
  have d1: "loadPlugin ?E plugins_cfg 1 (plugin_ref ''D1'') t = Some (Inr (), loaded_once ''D1'' t)"
    and d2: "loadPlugin ?E plugins_cfg 1 (plugin_ref ''D2'') t = Some (Inr (), loaded_once ''D2'' t)"
    for t
    using m1 m2 unfolding ordered_env_def One_nat_def by (simp_all add: repository_leaf)
  have nil: "pluginsLoaded ?s0 = []" "events ?s0 = []" by (simp_all add: initial_state_def)
  have run: "loadPlugin ?E plugins_cfg 2 (plugin_ref ''P'') ?s0 = Some (Inr (), ?s')"
    unfolding numeral_2_eq_2 loadPlugin_Suc[of _ _ "Suc 0"]
    using mp d1 d2 nil
    by (simp add: loadDependencies_def loadDependencies_with_def ordered_env_def server_path_def
          plugins_cfg_def routes_path_def)
  have deps: "dependencies (server ?mP) = Some [plugin_ref ''D1'', plugin_ref ''D2'']" by simp
  have mp': "import_manifest ?E (manifest_path plugins_cfg (plugin_id (plugin_ref ''P''))) = Inr ?mP"
    using mp by simp
  from C4_dependencies_load_in_order[OF mp' deps, of ?s0] run
  obtain T1 T2 T3 r1 s1 r2 s2 where
    a: "events ?s' = events ?s0
          @ [Claimed (plugin_id (plugin_ref ''P'')), ManifestResolved (plugin_id (plugin_ref ''P''))]
          @ T1 @ T2 @ T3"
    and b: "dependency_turn ?E plugins_cfg (plugin_ref ''D1'') (resolved (plugin_id (plugin_ref ''P'')) ?s0) r1 s1 T1"
    and c: "if r1 = Inr () then dependency_turn ?E plugins_cfg (plugin_ref ''D2'') s1 r2 s2 T2
            else T2 = [] \<and> r2 = r1 \<and> s2 = s1"
    and d: "if r2 = Inr () then steps_5_to_7 ?E plugins_cfg ?mP s2 = (Inr (), ?s')
               \<and> T3 = steps_5_to_7_events ?E plugins_cfg ?mP
            else T3 = [] \<and> Inr () = r2 \<and> ?s' = s2"
    by blast
  have b': "dependency_turn ?E plugins_cfg (plugin_ref ''D1'') ?R r1 s1 T1" using b by simp
  have n1: "plugin_id (plugin_ref ''D1'') \<notin> set (pluginsLoaded ?R)" using nil by simp
  note k1 = dependency_turn_loaded[OF b' n1 d1]
  have r1: "r1 = Inr ()" and s1: "s1 = loaded_once ''D1'' ?R" by (rule k1(1), rule k1(2))
  have c1: "complete_load ?E plugins_cfg ''D1'' T1" using k1(4) by simp
  have c': "dependency_turn ?E plugins_cfg (plugin_ref ''D2'') (loaded_once ''D1'' ?R) r2 s2 T2"
    using c r1 s1 by simp
  have n2: "plugin_id (plugin_ref ''D2'') \<notin> set (pluginsLoaded (loaded_once ''D1'' ?R))"
    using nil by simp
  note k2 = dependency_turn_loaded[OF c' n2 d2]
  have r2: "r2 = Inr ()" by (rule k2(1))
  have c2: "complete_load ?E plugins_cfg ''D2'' T2" using k2(4) by simp
  have t3: "T3 = [SchemaGlobStarted ''P'', Instantiated ''P'', RoutesRegistered ''P'']"
    using d r2 by (simp add: steps_5_to_7_events_def ordered_env_def)
  have a': "?trace = [Claimed ''P'', ManifestResolved ''P''] @ T1 @ T2 @ T3"
    using a nil by simp
  from a' c1 c2 t3 have "\<exists>T1 T2 T3. ?trace = [Claimed ''P'', ManifestResolved ''P''] @ T1 @ T2 @ T3
       \<and> complete_load ?E plugins_cfg ''D1'' T1
       \<and> complete_load ?E plugins_cfg ''D2'' T2
       \<and> T3 = [SchemaGlobStarted ''P'', Instantiated ''P'', RoutesRegistered ''P'']"
    by blast
  with mp fin run show ?thesis by blast
qed

theorem C4_dependencies_load_in_order_counterexample:
  "import_manifest nested_env (manifest_path plugins_cfg ''P'') = Inr (manifest_of ''P'' [''D1'', ''D2''])
   \<and> loadPlugin nested_env plugins_cfg 3 (plugin_ref ''P'') (initial_state VUndefined)
      = Some (Inr (),
          log (RoutesRegistered ''P'')
            (instantiated (manifest_of ''P'' [''D1'', ''D2'']) (PluginInstance ''/plugins/P/server'')
              (log (RoutesRegistered ''D1'')
                (instantiated (manifest_of ''D1'' [''D2'']) (PluginInstance ''/plugins/D1/server'')
                  (loaded_once ''D2'' (resolved ''D1'' (resolved ''P'' (initial_state VUndefined))))))))
   \<and> events (log (RoutesRegistered ''P'')
            (instantiated (manifest_of ''P'' [''D1'', ''D2'']) (PluginInstance ''/plugins/P/server'')
              (log (RoutesRegistered ''D1'')
                (instantiated (manifest_of ''D1'' [''D2'']) (PluginInstance ''/plugins/D1/server'')
                  (loaded_once ''D2'' (resolved ''D1'' (resolved ''P'' (initial_state VUndefined))))))))
      = [Claimed ''P'', ManifestResolved ''P'', Claimed ''D1'', ManifestResolved ''D1'',
         Claimed ''D2'', ManifestResolved ''D2'', SchemaGlobStarted ''D2'', Instantiated ''D2'',
         RoutesRegistered ''D2'',
         SchemaGlobStarted ''D1'', Instantiated ''D1'', RoutesRegistered ''D1'',
         SchemaGlobStarted ''P'', Instantiated ''P'', RoutesRegistered ''P'']
   \<and> pending (log (RoutesRegistered ''P'')
            (instantiated (manifest_of ''P'' [''D1'', ''D2'']) (PluginInstance ''/plugins/P/server'')
              (log (RoutesRegistered ''D1'')
                (instantiated (manifest_of ''D1'' [''D2'']) (PluginInstance ''/plugins/D1/server'')
                  (loaded_once ''D2'' (resolved ''D1'' (resolved ''P'' (initial_state VUndefined))))))))
      = [manifest_of ''D2'' [], manifest_of ''D1'' [''D2''], manifest_of ''P'' [''D1'', ''D2'']]
   \<and> import_manifest reentrant_env (manifest_path plugins_cfg ''P'') = Inr (manifest_of ''P'' [''D1'', ''D2''])
   \<and> loadPlugin reentrant_env plugins_cfg 3 (plugin_ref ''D1'') (initial_state VUndefined)
      = Some (Inr (),
          (log (RoutesRegistered ''D1'')
            (instantiated (manifest_of ''D1'' [''P'']) (PluginInstance ''/plugins/D1/server'')
              (log (RoutesRegistered ''P'')
                (instantiated (manifest_of ''P'' [''D1'', ''D2'']) (PluginInstance ''/plugins/P/server'')
                  (loaded_once ''D2'' (resolved ''P'' (resolved ''D1'' (initial_state VUndefined)))))))))
   \<and> events (log (RoutesRegistered ''D1'')
            (instantiated (manifest_of ''D1'' [''P'']) (PluginInstance ''/plugins/D1/server'')
              (log (RoutesRegistered ''P'')
                (instantiated (manifest_of ''P'' [''D1'', ''D2'']) (PluginInstance ''/plugins/P/server'')
                  (loaded_once ''D2'' (resolved ''P'' (resolved ''D1'' (initial_state VUndefined))))))))
      = [Claimed ''D1'', ManifestResolved ''D1'', Claimed ''P'', ManifestResolved ''P'',
         Claimed ''D2'', ManifestResolved ''D2'', SchemaGlobStarted ''D2'', Instantiated ''D2'',
         RoutesRegistered ''D2'',
         SchemaGlobStarted ''P'', Instantiated ''P'', RoutesRegistered ''P'',
         SchemaGlobStarted ''D1'', Instantiated ''D1'', RoutesRegistered ''D1'']"
proof -
  let ?s0 = "initial_state VUndefined"
  let ?mP = "manifest_of ''P'' [''D1'', ''D2'']" and ?m1 = "manifest_of ''D1'' [''D2'']"
  let ?t2 = "loaded_once ''D2'' (resolved ''D1'' (resolved ''P'' ?s0))"
  let ?t1 = "log (RoutesRegistered ''D1'') (instantiated ?m1 (PluginInstance ''/plugins/D1/server'') ?t2)"
  let ?s' = "log (RoutesRegistered ''P'') (instantiated ?mP (PluginInstance ''/plugins/P/server'') ?t1)"
  have mp: "import_manifest nested_env (manifest_path plugins_cfg ''P'') = Inr ?mP"
    and m1: "import_manifest nested_env (manifest_path plugins_cfg ''D1'') = Inr ?m1"
    and m2: "import_manifest nested_env (manifest_path plugins_cfg ''D2'') = Inr (manifest_of ''D2'' [])"
    by (simp_all add: nested_env_def repository_def manifest_path_def plugins_cfg_def)
  have d2: "loadPlugin nested_env plugins_cfg 1 (plugin_ref ''D2'') t = Some (Inr (), loaded_once ''D2'' t)"
    for t
    using m2 unfolding nested_env_def One_nat_def by (simp add: repository_leaf)
  have nil: "pluginsLoaded ?s0 = []" "events ?s0 = []" "pending ?s0 = []"
    by (simp_all add: initial_state_def)
  have d1: "loadPlugin nested_env plugins_cfg 2 (plugin_ref ''D1'') (resolved ''P'' ?s0) = Some (Inr (), ?t1)"
    unfolding numeral_2_eq_2 loadPlugin_Suc[of _ _ "Suc 0"]
    using m1 d2 nil
    by (simp add: loadDependencies_def loadDependencies_with_def nested_env_def server_path_def
          plugins_cfg_def routes_path_def)
  have run: "loadPlugin nested_env plugins_cfg 3 (plugin_ref ''P'') ?s0 = Some (Inr (), ?s')"
    unfolding numeral_3_eq_3 loadPlugin_Suc[of _ _ "Suc (Suc 0)"]
    using mp d1[unfolded numeral_2_eq_2] nil
    by (simp add: loadDependencies_def loadDependencies_with_def nested_env_def server_path_def
          plugins_cfg_def routes_path_def)
  have ev: "events ?s' = [Claimed ''P'', ManifestResolved ''P'', Claimed ''D1'', ManifestResolved ''D1'',
         Claimed ''D2'', ManifestResolved ''D2'', SchemaGlobStarted ''D2'', Instantiated ''D2'',
         RoutesRegistered ''D2'',
         SchemaGlobStarted ''D1'', Instantiated ''D1'', RoutesRegistered ''D1'',
         SchemaGlobStarted ''P'', Instantiated ''P'', RoutesRegistered ''P'']"
    using nil by simp
  have pe: "pending ?s' = [manifest_of ''D2'' [], ?m1, ?mP]"
    using nil by simp
  let ?n1 = "manifest_of ''D1'' [''P'']"
  let ?u2 = "loaded_once ''D2'' (resolved ''P'' (resolved ''D1'' ?s0))"
  let ?uP = "log (RoutesRegistered ''P'') (instantiated ?mP (PluginInstance ''/plugins/P/server'') ?u2)"
  let ?u' = "log (RoutesRegistered ''D1'') (instantiated ?n1 (PluginInstance ''/plugins/D1/server'') ?uP)"
  have np: "import_manifest reentrant_env (manifest_path plugins_cfg ''P'') = Inr ?mP"
    and n1: "import_manifest reentrant_env (manifest_path plugins_cfg ''D1'') = Inr ?n1"
    and n2: "import_manifest reentrant_env (manifest_path plugins_cfg ''D2'') = Inr (manifest_of ''D2'' [])"
    by (simp_all add: reentrant_env_def repository_def manifest_path_def plugins_cfg_def)
  have e2: "loadPlugin reentrant_env plugins_cfg 1 (plugin_ref ''D2'') t = Some (Inr (), loaded_once ''D2'' t)"
    for t
    using n2 unfolding reentrant_env_def One_nat_def by (simp add: repository_leaf)
  have eP: "loadPlugin reentrant_env plugins_cfg 2 (plugin_ref ''P'') (resolved ''D1'' ?s0) = Some (Inr (), ?uP)"
    unfolding numeral_2_eq_2 loadPlugin_Suc[of _ _ "Suc 0"]
    using np e2 nil
    by (simp add: loadDependencies_def loadDependencies_with_def reentrant_env_def server_path_def
          plugins_cfg_def routes_path_def)
  have run2: "loadPlugin reentrant_env plugins_cfg 3 (plugin_ref ''D1'') ?s0 = Some (Inr (), ?u')"
    unfolding numeral_3_eq_3 loadPlugin_Suc[of _ _ "Suc (Suc 0)"]
    using n1 eP[unfolded numeral_2_eq_2] nil
    by (simp add: loadDependencies_def loadDependencies_with_def reentrant_env_def server_path_def
          plugins_cfg_def routes_path_def)
  have ev2: "events ?u' = [Claimed ''D1'', ManifestResolved ''D1'', Claimed ''P'', ManifestResolved ''P'',
         Claimed ''D2'', ManifestResolved ''D2'', SchemaGlobStarted ''D2'', Instantiated ''D2'',
         RoutesRegistered ''D2'',
         SchemaGlobStarted ''P'', Instantiated ''P'', RoutesRegistered ''P'',
         SchemaGlobStarted ''D1'', Instantiated ''D1'', RoutesRegistered ''D1'']"
    using nil by simp
  from mp run ev pe np run2 ev2 show ?thesis by simp
qed

section \<open>A failed schema activation\<close>

text \<open>
  C2. The claim does not hold of the code: \<^verbatim>\<open>loadDBSchema\<close> hands a callback to
  \<^verbatim>\<open>glob\<close> and returns, and the \<^verbatim>\<open>FrameworkError\<close> thrown for a failed schema file
  rejects a promise that \<^verbatim>\<open>forEach\<close> dropped. Plugin X has one schema file and its
  activator fails: \<^verbatim>\<open>loadPlugin(X)\<close> is fulfilled, X is instantiated and stored in
  \<^verbatim>\<open>PluginManager.instances\<close> and its routes are registered; the
  \<^verbatim>\<open>SCHEMA_LOADER_FAILED\<close> error appears only later, when the pending callback runs, as
  an unhandled rejection.
\<close>

theorem C2_schema_failure_is_not_reported:
  "loadPlugin failing_schema_env plugins_cfg 1 (plugin_ref ''X'') (initial_state VUndefined)
     = Some (Inr (), loaded_once ''X'' (initial_state VUndefined))
   \<and> instances (loaded_once ''X'' (initial_state VUndefined)) ''X''
       = Some (PluginInstance ''/plugins/X/server'')
   \<and> events (loaded_once ''X'' (initial_state VUndefined))
       = [Claimed ''X'', ManifestResolved ''X'', SchemaGlobStarted ''X'', Instantiated ''X'',
          RoutesRegistered ''X'']
   \<and> unhandled (loaded_once ''X'' (initial_state VUndefined)) = []
   \<and> pending (loaded_once ''X'' (initial_state VUndefined)) = [manifest_of ''X'' []]
   \<and> unhandled (run_pending failing_schema_env plugins_cfg (loaded_once ''X'' (initial_state VUndefined)))
       = [FrameworkError SCHEMA_LOADER_FAILED ''schema activation failed'']
   \<and> events (run_pending failing_schema_env plugins_cfg (loaded_once ''X'' (initial_state VUndefined)))
       = [Claimed ''X'', ManifestResolved ''X'', SchemaGlobStarted ''X'', Instantiated ''X'',
          RoutesRegistered ''X'', SchemaFailed ''X'' ''/plugins/X/db/schema_table.json'']"
proof -
  let ?s0 = "initial_state VUndefined"
  have m: "import_manifest (repository [(''X'', manifest_of ''X'' [])]) (manifest_path plugins_cfg ''X'')
             = Inr (manifest_of ''X'' [])"
    by (simp add: repository_def manifest_path_def plugins_cfg_def)
  have run: "loadPlugin failing_schema_env plugins_cfg 1 (plugin_ref ''X'') ?s0
     = Some (Inr (), loaded_once ''X'' ?s0)"
    unfolding failing_schema_env_def loadPlugin_ignores_schema One_nat_def
    using m by (rule repository_leaf)
  have nil: "events ?s0 = []" "unhandled ?s0 = []" "pending ?s0 = []" "instances ?s0 = Map.empty"
    by (simp_all add: initial_state_def)
  have i: "instances (loaded_once ''X'' ?s0) ''X'' = Some (PluginInstance ''/plugins/X/server'')"
    by simp
  have e: "events (loaded_once ''X'' ?s0)
       = [Claimed ''X'', ManifestResolved ''X'', SchemaGlobStarted ''X'', Instantiated ''X'',
          RoutesRegistered ''X'']"
    using nil by simp
  have u: "unhandled (loaded_once ''X'' ?s0) = []" using nil by simp
  have p: "pending (loaded_once ''X'' ?s0) = [manifest_of ''X'' []]" using nil by simp
  have later: "run_pending failing_schema_env plugins_cfg (loaded_once ''X'' ?s0)
      = log (SchemaFailed ''X'' ''/plugins/X/db/schema_table.json'')
          ((loaded_once ''X'' ?s0)\<lparr>pending := [],
             unhandled := [FrameworkError SCHEMA_LOADER_FAILED ''schema activation failed'']\<rparr>)"
    using p u
    by (simp add: run_pending_def glob_callback_def schema_file_def failing_schema_env_def
          plugins_cfg_def)
  have u': "unhandled (run_pending failing_schema_env plugins_cfg (loaded_once ''X'' ?s0))
       = [FrameworkError SCHEMA_LOADER_FAILED ''schema activation failed'']"
    unfolding later by simp
  have e': "events (run_pending failing_schema_env plugins_cfg (loaded_once ''X'' ?s0))
       = [Claimed ''X'', ManifestResolved ''X'', SchemaGlobStarted ''X'', Instantiated ''X'',
          RoutesRegistered ''X'', SchemaFailed ''X'' ''/plugins/X/db/schema_table.json'']"
    unfolding later using e by simp
  from run i e u p u' e' show ?thesis by simp
qed

section \<open>The configuration is captured by value\<close>

text \<open>
  C9. The constructor keeps a deep copy of the caller's configuration object. For a
  store without dangling references: what the loader sees through \<^verbatim>\<open>_config\<close> right
  after construction is what the caller's object showed at that moment, to any depth;
  and whatever the caller does afterwards to objects that are not part of the copy
  (writes and deletions of properties, at any depth of its own object, and allocations),
  \<^verbatim>\<open>this.config\<close> reads the same and every later call of \<^verbatim>\<open>loadPlugin\<close> returns the
  same result and the same state. \<^verbatim>\<open>loadPlugin\<close> never reassigns \<^verbatim>\<open>_config\<close>, so this
  holds for the calls after it as well.
\<close>

theorem C9_config_is_captured_by_value:
  assumes wf: "wf_heap h" and valid: "valid_val (length h) c"
    and new: "PluginLoader_new h c = (h', s0)"
    and own: "\<forall>m\<in>set ms. \<not> writes_into (length h) (length h') m"
    and ref: "config_ref s = config_ref s0"
  shows "(\<forall>k. unfold k h' (config_ref s0) = unfold k h c)
       \<and> config (mutate_all ms h') s = config h' s
       \<and> PluginLoader_loadPlugin E (mutate_all ms h') n plugin s = PluginLoader_loadPlugin E h' n plugin s
       \<and> (\<forall>r s'. PluginLoader_loadPlugin E h' n plugin s = Some (r, s') \<longrightarrow> config_ref s' = config_ref s0)"
proof -
  let ?L = "length h"
  from new have h': "h' = fst (cloneDeep h c)" and r0: "config_ref s0 = shift ?L c"
    by (auto simp: PluginLoader_new_def cloneDeep_def Let_def)
  have len: "length h' = 2 * ?L" unfolding h' by (rule cloneDeep_length)
  have closed: "closed_region ?L (2 * ?L) h'" unfolding h' by (rule cloneDeep_closed[OF wf])
  have inr: "in_region ?L (2 * ?L) (config_ref s)"
    unfolding ref r0 by (rule in_region_shift[OF valid])
  have same: "same_region ?L (2 * ?L) (mutate_all ms h') h'"
    using own len by (intro mutate_all_same_region) simp_all
  have copy: "unfold k h' (config_ref s0) = unfold k h c" for k
    unfolding h' r0 by (rule unfold_cloneDeep[OF wf valid])
  have view: "unfold k (mutate_all ms h') (config_ref s) = unfold k h' (config_ref s)" for k
    by (rule unfold_same_region[OF same closed inr])
  have field: "get_prop (mutate_all ms h') (config_ref s) f = get_prop h' (config_ref s) f" for f
    by (rule get_prop_same_region[OF same inr])
  have cfg: "config (mutate_all ms h') s = config h' s"
    by (simp add: config_def field view cong: jsval.case_cong)
  have run: "PluginLoader_loadPlugin E (mutate_all ms h') n plugin s = PluginLoader_loadPlugin E h' n plugin s"
    by (simp add: PluginLoader_loadPlugin_def cfg)
  have keep: "config_ref s' = config_ref s0"
    if "PluginLoader_loadPlugin E h' n plugin s = Some (r, s')" for r s'
  proof -
    from that obtain cf where "loadPlugin E cf n plugin s = Some (r, s')"
      by (auto simp: PluginLoader_loadPlugin_def split: option.splits)
    from loadPlugin_config_ref[OF this] ref show ?thesis by simp
  qed
  from copy cfg run keep show ?thesis by blast
qed

theorem C9_config_is_captured_by_value_witness:
  "wf_heap caller_heap \<and> valid_val (length caller_heap) (VRef 0)
   \<and> get_prop (mutate_all caller_mutations (fst (PluginLoader_new caller_heap (VRef 0)))) (VRef 0)
         ''pluginBasePath'' = VStr ''/elsewhere/''
   \<and> get_prop (mutate_all caller_mutations (fst (PluginLoader_new caller_heap (VRef 0))))
         (config_ref (snd (PluginLoader_new caller_heap (VRef 0)))) ''pluginBasePath'' = VStr ''/plugins/''
   \<and> PluginLoader_loadPlugin chain_env
         (mutate_all caller_mutations (fst (PluginLoader_new caller_heap (VRef 0)))) 3 (plugin_ref ''C'')
         (snd (PluginLoader_new caller_heap (VRef 0)))
     = PluginLoader_loadPlugin chain_env (fst (PluginLoader_new caller_heap (VRef 0))) 3 (plugin_ref ''C'')
         (snd (PluginLoader_new caller_heap (VRef 0)))"
proof -
  let ?h' = "fst (PluginLoader_new caller_heap (VRef 0))"
  let ?s0 = "snd (PluginLoader_new caller_heap (VRef 0))"
  have wf: "wf_heap caller_heap" by (simp add: wf_heap_def caller_heap_def valid_val_def)
  have valid: "valid_val (length caller_heap) (VRef 0)" by (simp add: caller_heap_def valid_val_def)
  have new: "PluginLoader_new caller_heap (VRef 0) = (?h', ?s0)" by simp
  have len: "length caller_heap = 2" "length ?h' = 4"
    by (simp_all add: caller_heap_def PluginLoader_new_def cloneDeep_def)
  have own: "\<forall>m\<in>set caller_mutations. \<not> writes_into (length caller_heap) (length ?h') m"
    unfolding len by (simp add: caller_mutations_def)
  have theirs: "get_prop (mutate_all caller_mutations ?h') (VRef 0) ''pluginBasePath'' = VStr ''/elsewhere/''"
    by (simp add: PluginLoader_new_def cloneDeep_def caller_heap_def caller_mutations_def
          mutate_all_def get_prop_def delete_prop_def)
  have r0: "config_ref ?s0 = VRef 2"
    by (simp add: PluginLoader_new_def cloneDeep_def caller_heap_def)
  have ours: "get_prop (mutate_all caller_mutations ?h') (config_ref ?s0) ''pluginBasePath'' = VStr ''/plugins/''"
    unfolding r0
    by (simp add: PluginLoader_new_def cloneDeep_def caller_heap_def caller_mutations_def
          mutate_all_def get_prop_def delete_prop_def)
  from C9_config_is_captured_by_value[OF wf valid new own refl, of chain_env 3 "plugin_ref ''C''"]
  have "PluginLoader_loadPlugin chain_env (mutate_all caller_mutations ?h') 3 (plugin_ref ''C'') ?s0
     = PluginLoader_loadPlugin chain_env ?h' 3 (plugin_ref ''C'') ?s0" by blast
  with wf valid theirs ours show ?thesis by blast
qed

end
